theory Spec2Isabelle
  imports Main "HOL-Library.Sublist"
begin

section \<open>Shared vocabulary\<close>

text \<open>
  \<^verbatim>\<open>TransitionStatus.STATUSES\<close> of the domain core has the three values the
  specification lists; a transition is of type \<^verbatim>\<open>'items'\<close> or \<^verbatim>\<open>'revisions'\<close>.
\<close>

datatype transition_status = InProgress | Verified | Failed

datatype transition_type = Items | Revisions

section \<open>The scheduler driver (packages/auth/bin/transition.ts)\<close>

text \<open>
  The driver reads users from the user repository, reads and removes rows of the
  transition status repository and publishes \<^verbatim>\<open>TransitionRequested\<close> events. The
  model passes an explicit world: the rows of the status repository, the users of the
  user repository, the two counters of the script, and the sequence of calls made on the
  status repository, the publisher and the logger (the log line of the per-user status
  report is kept because it is the only trace of a user that was not skipped).
\<close>

record user =
  user_uuid :: string
  user_createdAt :: int
  user_roles :: "string list"

datatype auth_effect =
    GetStatus string transition_type
  | RemoveStatus string transition_type
  | PublishTransitionRequested string transition_type int
  | LogTransitionStatus string "transition_status option" "transition_status option" bool

record auth_world =
  transitionStatuses :: "string \<times> transition_type \<Rightarrow> transition_status option"
  users :: "user list"
  authTrace :: "auth_effect list"
  itemTransitionsTriggered :: nat
  revisionTransitionsTriggered :: nat

text \<open>
  Modelled from the spec: the role name constant \<^verbatim>\<open>RoleName.NAMES.TransitionUser\<close>
  is declared in the domain core, which is not among the sources; the specification names
  the role \<^verbatim>\<open>TransitionUser\<close>.
\<close>

definition TransitionUser :: string where
  "TransitionUser = ''TRANSITION_USER''"

text \<open>
  Modelled from the spec: the repositories are interfaces whose implementations are not
  among the sources. \<^verbatim>\<open>getStatus\<close> returns the row's status or null,
  \<^verbatim>\<open>remove\<close> clears the row, \<^verbatim>\<open>countAllCreatedBetween\<close> and
  \<^verbatim>\<open>findAllCreatedBetween\<close> select the users created in the inclusive window, the
  latter a page of them given by offset and limit.
\<close>

definition getStatus ::
  "string \<Rightarrow> transition_type \<Rightarrow> auth_world \<Rightarrow> transition_status option \<times> auth_world" where
  "getStatus u ty w =
     (transitionStatuses w (u, ty), w\<lparr>authTrace := authTrace w @ [GetStatus u ty]\<rparr>)"

definition removeStatus :: "string \<Rightarrow> transition_type \<Rightarrow> auth_world \<Rightarrow> auth_world" where
  "removeStatus u ty w =
     w\<lparr>transitionStatuses := (transitionStatuses w)((u, ty) := None),
       authTrace := authTrace w @ [RemoveStatus u ty]\<rparr>"

definition publishTransitionRequested ::
  "string \<Rightarrow> transition_type \<Rightarrow> int \<Rightarrow> auth_world \<Rightarrow> auth_world" where
  "publishTransitionRequested u ty ts w =
     w\<lparr>authTrace := authTrace w @ [PublishTransitionRequested u ty ts]\<rparr>"

definition createdBetween :: "int \<Rightarrow> int \<Rightarrow> user list \<Rightarrow> user list" where
  "createdBetween startDate endDate us =
     filter (\<lambda>u. startDate \<le> user_createdAt u \<and> user_createdAt u \<le> endDate) us"

definition countAllCreatedBetween :: "int \<Rightarrow> int \<Rightarrow> auth_world \<Rightarrow> nat" where
  "countAllCreatedBetween startDate endDate w =
     length (createdBetween startDate endDate (users w))"

definition findAllCreatedBetween :: "int \<Rightarrow> int \<Rightarrow> nat \<Rightarrow> nat \<Rightarrow> auth_world \<Rightarrow> user list" where
  "findAllCreatedBetween startDate endDate offset limit w =
     take limit (drop offset (createdBetween startDate endDate (users w)))"

text \<open>
  The body of \<^verbatim>\<open>for (const user of users)\<close>, lines 60 to 114. Both statuses are
  read first; the test of line 71 skips the user; the two blocks of lines 79 to 95 and 97
  to 113 test the status read at the top of the iteration.
\<close>

definition processUser :: "bool \<Rightarrow> int \<Rightarrow> user \<Rightarrow> auth_world \<Rightarrow> auth_world" where
  "processUser forceRun timestamp usr w0 =
     (let (itemsTransitionStatus, w1) = getStatus (user_uuid usr) Items w0;
          (revisionsTransitionStatus, w2) = getStatus (user_uuid usr) Revisions w1;
          userHasTransitionRole = list_ex (\<lambda>role. role = TransitionUser) (user_roles usr);
          bothTransitionStatusesAreVerified =
            (itemsTransitionStatus = Some Verified \<and> revisionsTransitionStatus = Some Verified)
      in if \<not> userHasTransitionRole \<and> bothTransitionStatusesAreVerified then w2
         else
           let w3 = w2\<lparr>authTrace := authTrace w2 @
                       [LogTransitionStatus (user_uuid usr) itemsTransitionStatus
                          revisionsTransitionStatus userHasTransitionRole]\<rparr>;
               w4 = (if itemsTransitionStatus = None
                        \<or> itemsTransitionStatus = Some Failed
                        \<or> (itemsTransitionStatus = Some InProgress \<and> forceRun)
                     then
                       let a = removeStatus (user_uuid usr) Items w3;
                           b = publishTransitionRequested (user_uuid usr) Items timestamp a
                       in b\<lparr>itemTransitionsTriggered := itemTransitionsTriggered b + 1\<rparr>
                     else w3)
           in (if revisionsTransitionStatus = None
                  \<or> revisionsTransitionStatus = Some Failed
                  \<or> (revisionsTransitionStatus = Some InProgress \<and> forceRun)
               then
                 let a = removeStatus (user_uuid usr) Revisions w4;
                     b = publishTransitionRequested (user_uuid usr) Revisions timestamp a
                 in b\<lparr>revisionTransitionsTriggered := revisionTransitionsTriggered b + 1\<rparr>
               else w4))"

fun processUsers :: "bool \<Rightarrow> int \<Rightarrow> user list \<Rightarrow> auth_world \<Rightarrow> auth_world" where
  "processUsers forceRun timestamp [] w = w"
| "processUsers forceRun timestamp (usr # rest) w =
     processUsers forceRun timestamp rest (processUser forceRun timestamp usr w)"

text \<open>
  \<^verbatim>\<open>for (let currentPage = 1; currentPage <= totalPages; currentPage++)\<close>: the first
  argument counts the pages still to visit.
\<close>

definition pageLimit :: nat where
  "pageLimit = 100"

fun userPages :: "nat \<Rightarrow> nat \<Rightarrow> bool \<Rightarrow> int \<Rightarrow> int \<Rightarrow> int \<Rightarrow> auth_world \<Rightarrow> auth_world" where
  "userPages 0 currentPage forceRun timestamp startDate endDate w = w"
| "userPages (Suc n) currentPage forceRun timestamp startDate endDate w =
     (let us = findAllCreatedBetween startDate endDate ((currentPage - 1) * pageLimit) pageLimit w
      in userPages n (currentPage + 1) forceRun timestamp startDate endDate
           (processUsers forceRun timestamp us w))"

text \<open>
  \<^verbatim>\<open>requestTransition\<close>: the dates are taken as already parsed, the timestamp is the
  timer's reading, \<^verbatim>\<open>forceRunParam\<close> is the third command line argument when there
  is one. \<^verbatim>\<open>Math.ceil(usersCount / pageLimit)\<close> is written out on naturals.
\<close>

definition requestTransition ::
  "int \<Rightarrow> int \<Rightarrow> string option \<Rightarrow> int \<Rightarrow> auth_world \<Rightarrow> auth_world" where
  "requestTransition startDate endDate forceRunParam timestamp w =
     (let usersCount = countAllCreatedBetween startDate endDate w;
          w' = w\<lparr>itemTransitionsTriggered := 0, revisionTransitionsTriggered := 0\<rparr>;
          forceRun = (forceRunParam = Some ''true'');
          totalPages = (usersCount + pageLimit - 1) div pageLimit
      in userPages totalPages 1 forceRun timestamp startDate endDate w')"

section \<open>The per-user migrator (TransitionRevisionsFromPrimaryToSecondaryDatabaseForUser)\<close>

subsection \<open>Data\<close>

text \<open>
  A revision as the migrator reads it: its id, the user it belongs to, the two dates and
  the rest of its properties (kept opaque). Dates are compared as numbers.
\<close>

record revision =
  rev_id :: string
  rev_userUuid :: string
  rev_createdAt :: int
  rev_updatedAt :: int
  rev_payload :: string

text \<open>The two instances of \<^verbatim>\<open>RevisionRepositoryInterface\<close> the class holds.\<close>

datatype repo = Primary | Secondary

text \<open>
  The messages of \<^verbatim>\<open>Result.fail\<close>, one constructor per message of the source with
  the values it interpolates; \<open>NotIdentical\<close> carries the two revisions whose JSON the
  message of line 274 prints (primary first).
\<close>

datatype error =
    SecondaryRepositoryNotSet
  | TransitionStatusRepositoryNotSet
  | InvalidUuid string
  | ErroredWhenMigrating string string
  | ErroredWhenDeleting string string
  | ErroredWhenCheckingIntegrity string
  | CountMismatch string nat nat
  | NotFoundInPrimary string
  | NotIdentical string revision revision

datatype 'a result = Ok 'a | Fail error

text \<open>The messages of \<^verbatim>\<open>logger.error\<close> (lines 176, 179 and 85).\<close>

datatype log_message =
    FailedToSaveRevision string
  | ErroredWhenSavingRevision string string
  | FailedToCleanUp string error

text \<open>
  Every call on a collaborator is recorded, in order. A call that threw is recorded as
  \<open>Rejected\<close> with the exception's message; \<open>Insert\<close> records what the call
  returned. \<^verbatim>\<open>logger.info\<close> lines and the timer readings that only feed them are
  not modelled.
\<close>

datatype effect =
    CountByUserUuid repo string
  | FindByUserUuid repo string int nat
  | FindOneByUuid repo string string
  | RemoveOneByUuid repo string string
  | RemoveByUserUuid repo string
  | Insert repo revision bool
  | GetPagingProgress string
  | SetPagingProgress string nat
  | GetIntegrityProgress string
  | SetIntegrityProgress string nat
  | Publish string transition_status transition_type int
  | Sleep nat
  | LogError log_message
  | Rejected effect string

text \<open>
  What a collaborator does at a call is not decided by the migrator: it may throw, and
  \<^verbatim>\<open>insert\<close> may return false. The world carries a schedule of these decisions, one
  entry consumed by each call on a repository or on the publisher; when the schedule is
  used up every call succeeds. The timer and the logger never throw.
\<close>

datatype fault = NoFault | Throw string | Refuse

record world =
  revisions :: "repo \<Rightarrow> revision list"
  pagingProgress :: "string \<Rightarrow> nat option"
  integrityProgress :: "string \<Rightarrow> nat option"
  trace :: "effect list"
  script :: "fault list"

text \<open>
  The constructor's arguments that decide what the use case does. The two repositories
  may be null. \<^verbatim>\<open>Uuid.create\<close> and \<^verbatim>\<open>Revision.isIdenticalTo\<close> belong to classes that
  are not among the sources: whether a string is a valid uuid and whether two revisions
  are identical are parameters (\<open>isIdenticalTo d a b\<close> is \<^verbatim>\<open>a.isIdenticalTo(b)\<close>).
\<close>

record deps =
  secondRevisionsRepositorySet :: bool
  transitionStatusRepositorySet :: bool
  pageSize :: nat
  uuidIsValid :: "string \<Rightarrow> bool"
  isIdenticalTo :: "revision \<Rightarrow> revision \<Rightarrow> bool"

record dto =
  dto_userUuid :: string
  dto_timestamp :: int

subsection \<open>Asynchronous code as state passing with exceptions\<close>

text \<open>
  An awaited computation takes the world and gives back the world it leaves and either
  the value it returns or the exception it throws. \<open>Diverges\<close> is the computation that
  never returns: it arises only from a page loop whose bound is \<^verbatim>\<open>Infinity\<close>.
\<close>

datatype 'a outcome = Returns 'a | Throws string | Diverges

type_synonym 'a io = "world \<Rightarrow> 'a outcome \<times> world"

definition ret :: "'a \<Rightarrow> 'a io" where
  "ret x w = (Returns x, w)"

definition throw :: "string \<Rightarrow> 'a io" where
  "throw msg w = (Throws msg, w)"

definition andThen :: "'a io \<Rightarrow> ('a \<Rightarrow> 'b io) \<Rightarrow> 'b io" where
  "andThen m f w =
     (case m w of
        (Returns x, w') \<Rightarrow> f x w'
      | (Throws msg, w') \<Rightarrow> (Throws msg, w')
      | (Diverges, w') \<Rightarrow> (Diverges, w'))"

definition tryCatch :: "'a io \<Rightarrow> (string \<Rightarrow> 'a io) \<Rightarrow> 'a io" where
  "tryCatch m handler w =
     (case m w of
        (Throws msg, w') \<Rightarrow> handler msg w'
      | other \<Rightarrow> other)"

subsection \<open>The collaborators\<close>

text \<open>
  Modelled from the spec: the repositories, the publisher and the timer are interfaces
  whose implementations are not among the sources. A revision repository is a list of
  revisions; \<^verbatim>\<open>countByUserUuid\<close> counts and \<^verbatim>\<open>findByUserUuid\<close> pages the
  revisions of a user, \<^verbatim>\<open>findOneByUuid\<close> finds a revision by id and user,
  \<^verbatim>\<open>insert\<close> adds one, \<^verbatim>\<open>removeOneByUuid\<close> and \<^verbatim>\<open>removeByUserUuid\<close>
  delete. Progress counters default to 1. A negative offset is an error of the store.
\<close>

fun thrown :: "fault list \<Rightarrow> string option" where
  "thrown (Throw msg # rest) = Some msg"
| "thrown other = None"

fun refused :: "fault list \<Rightarrow> bool" where
  "refused (Refuse # rest) = True"
| "refused other = False"

definition call :: "effect \<Rightarrow> (world \<Rightarrow> 'a \<times> world) \<Rightarrow> 'a io" where
  "call e act w =
     (case thrown (script w) of
        Some msg \<Rightarrow>
          (Throws msg, w\<lparr>trace := trace w @ [Rejected e msg], script := tl (script w)\<rparr>)
      | None \<Rightarrow>
          (let (x, w') = act w
           in (Returns x, w'\<lparr>trace := trace w @ [e], script := tl (script w)\<rparr>)))"

definition ofUser :: "string \<Rightarrow> revision list \<Rightarrow> revision list" where
  "ofUser u rs = filter (\<lambda>r. rev_userUuid r = u) rs"

definition countByUserUuid :: "repo \<Rightarrow> string \<Rightarrow> nat io" where
  "countByUserUuid r u =
     call (CountByUserUuid r u) (\<lambda>w. (length (ofUser u (revisions w r)), w))"

definition findByUserUuid :: "repo \<Rightarrow> string \<Rightarrow> int \<Rightarrow> nat \<Rightarrow> revision list io" where
  "findByUserUuid r u offset limit =
     (if offset < 0
      then (\<lambda>w. (Throws ''negative offset'',
                  w\<lparr>trace := trace w @ [Rejected (FindByUserUuid r u offset limit) ''negative offset''],
                    script := tl (script w)\<rparr>))
      else call (FindByUserUuid r u offset limit)
             (\<lambda>w. (take limit (drop (nat offset) (ofUser u (revisions w r))), w)))"

definition findOneByUuid :: "repo \<Rightarrow> string \<Rightarrow> string \<Rightarrow> revision option io" where
  "findOneByUuid r i u =
     call (FindOneByUuid r i u)
       (\<lambda>w. (find (\<lambda>x. rev_id x = i \<and> rev_userUuid x = u) (revisions w r), w))"

definition removeOneByUuid :: "repo \<Rightarrow> string \<Rightarrow> string \<Rightarrow> unit io" where
  "removeOneByUuid r i u =
     call (RemoveOneByUuid r i u)
       (\<lambda>w. ((), w\<lparr>revisions := (revisions w)
                 (r := filter (\<lambda>x. \<not> (rev_id x = i \<and> rev_userUuid x = u)) (revisions w r))\<rparr>))"

definition removeByUserUuid :: "repo \<Rightarrow> string \<Rightarrow> unit io" where
  "removeByUserUuid r u =
     call (RemoveByUserUuid r u)
       (\<lambda>w. ((), w\<lparr>revisions := (revisions w)
                 (r := filter (\<lambda>x. rev_userUuid x \<noteq> u) (revisions w r))\<rparr>))"

definition insertRevision :: "repo \<Rightarrow> revision \<Rightarrow> bool io" where
  "insertRevision r revision =
     (\<lambda>w. if refused (script w)
          then (Returns False,
                w\<lparr>trace := trace w @ [Insert r revision False], script := tl (script w)\<rparr>)
          else call (Insert r revision True)
                 (\<lambda>w. (True, w\<lparr>revisions := (revisions w)(r := revisions w r @ [revision])\<rparr>)) w)"

definition getPagingProgress :: "string \<Rightarrow> nat io" where
  "getPagingProgress u =
     call (GetPagingProgress u)
       (\<lambda>w. (case pagingProgress w u of None \<Rightarrow> 1 | Some p \<Rightarrow> p, w))"

definition setPagingProgress :: "string \<Rightarrow> nat \<Rightarrow> unit io" where
  "setPagingProgress u p =
     call (SetPagingProgress u p) (\<lambda>w. ((), w\<lparr>pagingProgress := (pagingProgress w)(u \<mapsto> p)\<rparr>))"

definition getIntegrityProgress :: "string \<Rightarrow> nat io" where
  "getIntegrityProgress u =
     call (GetIntegrityProgress u)
       (\<lambda>w. (case integrityProgress w u of None \<Rightarrow> 1 | Some p \<Rightarrow> p, w))"

definition setIntegrityProgress :: "string \<Rightarrow> nat \<Rightarrow> unit io" where
  "setIntegrityProgress u p =
     call (SetIntegrityProgress u p)
       (\<lambda>w. ((), w\<lparr>integrityProgress := (integrityProgress w)(u \<mapsto> p)\<rparr>))"

definition logError :: "log_message \<Rightarrow> unit io" where
  "logError m w = (Returns (), w\<lparr>trace := trace w @ [LogError m]\<rparr>)"

definition sleep :: "nat \<Rightarrow> unit io" where
  "sleep ms w = (Returns (), w\<lparr>trace := trace w @ [Sleep ms]\<rparr>)"

text \<open>
  \<^verbatim>\<open>Uuid.create(s).getValue()\<close>: reading the value of a failed result throws, with
  the message of the result class followed by the error of \<^verbatim>\<open>Uuid.create\<close>.
\<close>

definition uuidGetValue :: "deps \<Rightarrow> string \<Rightarrow> string io" where
  "uuidGetValue d s =
     (if uuidIsValid d s then ret s
      else throw (''Cannot get value of an unsuccessfull result: Given value is not a valid uuid: '' @ s))"

subsection \<open>The helper methods\<close>

text \<open>\<^verbatim>\<open>updateTransitionStatus\<close>, lines 289 to 298: one publish, of type revisions.\<close>

definition updateTransitionStatus :: "string \<Rightarrow> transition_status \<Rightarrow> int \<Rightarrow> unit io" where
  "updateTransitionStatus userUuid status timestamp =
     call (Publish userUuid status Revisions timestamp) (\<lambda>w. ((), w))"

text \<open>\<^verbatim>\<open>isAlreadyMigrated\<close>, lines 300 to 312.\<close>

definition isAlreadyMigrated :: "string \<Rightarrow> bool io" where
  "isAlreadyMigrated userUuid =
     andThen (countByUserUuid Secondary userUuid)
       (\<lambda>totalRevisionsCountForUserInSecondary. ret (totalRevisionsCountForUserInSecondary = 0))"

text \<open>\<^verbatim>\<open>allowForPrimaryDatabaseToCatchUp\<close>, lines 207 to 210.\<close>

definition allowForPrimaryDatabaseToCatchUp :: "unit io" where
  "allowForPrimaryDatabaseToCatchUp = sleep 2000"

text \<open>\<^verbatim>\<open>deleteRevisionsForUser\<close>, lines 192 to 205.\<close>

definition deleteRevisionsForUser :: "string \<Rightarrow> repo \<Rightarrow> unit result io" where
  "deleteRevisionsForUser userUuid revisionRepository =
     tryCatch
       (andThen (removeByUserUuid revisionRepository userUuid) (\<lambda>_. ret (Ok ())))
       (\<lambda>msg. ret (Fail (ErroredWhenDeleting userUuid msg)))"

subsection \<open>Page arithmetic\<close>

text \<open>
  \<^verbatim>\<open>Math.ceil(count / this.pageSize)\<close> on JavaScript numbers: with a page size
  of 0 the quotient is \<^verbatim>\<open>NaN\<close> (count 0) or \<^verbatim>\<open>Infinity\<close>. The test
  \<^verbatim>\<open>currentPage % Math.ceil(totalPages / 10) === 0\<close> is false when the divisor is 0
  (the remainder is \<^verbatim>\<open>NaN\<close>), and \<^verbatim>\<open>x % Infinity\<close> is \<^verbatim>\<open>x\<close>.
\<close>

datatype page_count = Pages nat | InfinitePages | NaNPages

definition mathCeilDiv :: "nat \<Rightarrow> nat \<Rightarrow> page_count" where
  "mathCeilDiv n k =
     (if k = 0 then (if n = 0 then NaNPages else InfinitePages)
      else Pages ((n + k - 1) div k))"

definition isPageInEvery10Percent :: "nat \<Rightarrow> page_count \<Rightarrow> bool" where
  "isPageInEvery10Percent currentPage totalPages =
     (case totalPages of
        Pages t \<Rightarrow> (t + 9) div 10 \<noteq> 0 \<and> currentPage mod ((t + 9) div 10) = 0
      | InfinitePages \<Rightarrow> currentPage = 0
      | NaNPages \<Rightarrow> False)"

subsection \<open>The paging migration (migrateRevisionsForUser, lines 104 to 190)\<close>

text \<open>
  The body of \<^verbatim>\<open>for (const revision of revisions)\<close>, lines 140 to 182. The block
  of lines 147 to 172 either ends the iteration (\<^verbatim>\<open>continue\<close>, here \<open>False\<close>)
  or falls through to the insert of line 174; the \<^verbatim>\<open>catch\<close> of line 178 logs
  whatever was thrown.
\<close>

definition migrateRevision :: "deps \<Rightarrow> string \<Rightarrow> revision \<Rightarrow> unit io" where
  "migrateRevision d userUuid revision =
     tryCatch
       (andThen (uuidGetValue d (rev_id revision)) (\<lambda>revisionUuid.
        andThen (findOneByUuid Primary revisionUuid (rev_userUuid revision)) (\<lambda>revisionInPrimary.
        andThen
          (case revisionInPrimary of
             None \<Rightarrow> ret True
           | Some p \<Rightarrow>
               if rev_updatedAt p > rev_updatedAt revision then ret False
               else if isIdenticalTo d p revision then ret False
               else
                 andThen (uuidGetValue d (rev_id p)) (\<lambda>primaryUuid.
                 andThen (removeOneByUuid Primary primaryUuid (rev_userUuid p)) (\<lambda>_.
                 andThen allowForPrimaryDatabaseToCatchUp (\<lambda>_. ret True))))
          (\<lambda>proceed.
             if proceed
             then andThen (insertRevision Primary revision) (\<lambda>didSave.
                    if \<not> didSave then logError (FailedToSaveRevision (rev_id revision))
                    else ret ())
             else ret ()))))
       (\<lambda>msg. logError (ErroredWhenSavingRevision (rev_id revision) msg))"

fun migrateRevisions :: "deps \<Rightarrow> string \<Rightarrow> revision list \<Rightarrow> unit io" where
  "migrateRevisions d userUuid [] = ret ()"
| "migrateRevisions d userUuid (revision # rest) =
     andThen (migrateRevision d userUuid revision) (\<lambda>_. migrateRevisions d userUuid rest)"

text \<open>The body of the page loop, lines 117 to 183.\<close>

definition migratePage :: "deps \<Rightarrow> string \<Rightarrow> int \<Rightarrow> page_count \<Rightarrow> nat \<Rightarrow> unit io" where
  "migratePage d userUuid timestamp totalPages currentPage =
     andThen
       (if isPageInEvery10Percent currentPage totalPages
        then updateTransitionStatus userUuid InProgress timestamp else ret ()) (\<lambda>_.
     andThen (setPagingProgress userUuid currentPage) (\<lambda>_.
     andThen (findByUserUuid Secondary userUuid
                ((int currentPage - 1) * int (pageSize d)) (pageSize d)) (\<lambda>revisions.
     migrateRevisions d userUuid revisions)))"

text \<open>
  \<^verbatim>\<open>for (let currentPage = initialPage; currentPage <= totalPages; currentPage++)\<close>
  with a finite bound: the first numeric argument counts the iterations left.
\<close>

fun migratePagesLoop :: "deps \<Rightarrow> string \<Rightarrow> int \<Rightarrow> page_count \<Rightarrow> nat \<Rightarrow> nat \<Rightarrow> unit io" where
  "migratePagesLoop d userUuid timestamp totalPages 0 currentPage = ret ()"
| "migratePagesLoop d userUuid timestamp totalPages (Suc n) currentPage =
     andThen (migratePage d userUuid timestamp totalPages currentPage)
       (\<lambda>_. migratePagesLoop d userUuid timestamp totalPages n (currentPage + 1))"

subsection \<open>What a computation may do to the world\<close>

text \<open>
  \<open>steps R m\<close>: whatever the world, running \<open>m\<close> leaves a world related to it by
  \<open>R\<close>. For a reflexive and transitive \<open>R\<close> the property passes through sequencing
  and exception handling.
\<close>

definition steps :: "(world \<Rightarrow> world \<Rightarrow> bool) \<Rightarrow> 'a io \<Rightarrow> bool" where
  "steps R m = (\<forall>w. R w (snd (m w)))"

lemma stepsD: "steps R m \<Longrightarrow> m w = (r, w') \<Longrightarrow> R w w'"
  by (auto simp add: steps_def dest: spec [of _ w])

lemma steps_ret: "reflp R \<Longrightarrow> steps R (ret x)"
  by (simp add: steps_def ret_def reflp_def)

lemma steps_throw: "reflp R \<Longrightarrow> steps R (throw msg)"
  by (simp add: steps_def throw_def reflp_def)

lemma steps_andThen:
  assumes "transp R" and "steps R m" and "\<And>x. steps R (f x)"
  shows "steps R (andThen m f)"
  unfolding steps_def
proof
  fix w
  obtain r w' where m: "m w = (r, w')" by (cases "m w")
  have 1: "R w w'" using assms(2) m by (rule stepsD)
  show "R w (snd (andThen m f w))"
  proof (cases r)
    case (Returns x)
    have "R w' (snd (f x w'))" using assms(3) by (simp add: steps_def)
    with 1 have "R w (snd (f x w'))" using assms(1) by (blast dest: transpD)
    then show ?thesis by (simp add: andThen_def m Returns)
  qed (simp_all add: andThen_def m 1)
qed

lemma steps_tryCatch:
  assumes "transp R" and "steps R m" and "\<And>msg. steps R (handler msg)"
  shows "steps R (tryCatch m handler)"
  unfolding steps_def
proof
  fix w
  obtain r w' where m: "m w = (r, w')" by (cases "m w")
  have 1: "R w w'" using assms(2) m by (rule stepsD)
  show "R w (snd (tryCatch m handler w))"
  proof (cases r)
    case (Throws msg)
    have "R w' (snd (handler msg w'))" using assms(3) by (simp add: steps_def)
    with 1 have "R w (snd (handler msg w'))" using assms(1) by (blast dest: transpD)
    then show ?thesis by (simp add: tryCatch_def m Throws)
  qed (simp_all add: tryCatch_def m 1)
qed

lemma steps_if: "steps R a \<Longrightarrow> steps R b \<Longrightarrow> steps R (if c then a else b)"
  by simp

text \<open>The statuses of the events a sequence of calls published, in order.\<close>

definition published :: "effect list \<Rightarrow> transition_status list" where
  "published es = concat (map (\<lambda>e. case e of Publish u st ty ts \<Rightarrow> [st] | _ \<Rightarrow> []) es)"

text \<open>
  \<open>advances P w w'\<close>: the fault schedule of \<open>w'\<close> is what is left of the schedule
  of \<open>w\<close>, the calls recorded in \<open>w'\<close> extend those recorded in \<open>w\<close>, and the new
  calls satisfy \<open>P\<close>. Two such properties are used: the new calls publish nothing, or
  publish nothing but InProgress.
\<close>

definition advances :: "(effect list \<Rightarrow> bool) \<Rightarrow> world \<Rightarrow> world \<Rightarrow> bool" where
  "advances P w w' =
     (suffix (script w') (script w) \<and> prefix (trace w) (trace w')
      \<and> P (drop (length (trace w)) (trace w')))"

definition silent :: "effect list \<Rightarrow> bool" where
  "silent es = (published es = [])"

definition keepAlives :: "effect list \<Rightarrow> bool" where
  "keepAlives es = list_all (\<lambda>st. st = InProgress) (published es)"

lemma published_simps [simp]:
  "published [] = []"
  "published (a @ b) = published a @ published b"
  "published (Publish u st ty ts # es) = st # published es"
  by (simp_all add: published_def)

lemma published_other: "published [e] = [] \<Longrightarrow> published (e # es) = published es"
  by (simp add: published_def)

lemma published_Rejected [simp]: "published (Rejected e msg # es) = published es"
  by (simp add: published_def)

lemma silent_append: "silent a \<Longrightarrow> silent b \<Longrightarrow> silent (a @ b)"
  by (simp add: silent_def)

lemma keepAlives_append: "keepAlives a \<Longrightarrow> keepAlives b \<Longrightarrow> keepAlives (a @ b)"
  by (simp add: keepAlives_def)

lemma silent_keepAlives: "silent es \<Longrightarrow> keepAlives es"
  by (simp add: silent_def keepAlives_def)

lemma advancesI:
  "suffix (script w') (script w) \<Longrightarrow> trace w' = trace w @ es \<Longrightarrow> P es \<Longrightarrow> advances P w w'"
  by (simp add: advances_def)

lemma advancesE:
  assumes "advances P w w'"
  obtains es where "suffix (script w') (script w)" and "trace w' = trace w @ es" and "P es"
  using assms by (auto simp add: advances_def prefix_def)

lemma advances_reflp: "P [] \<Longrightarrow> reflp (advances P)"
  by (simp add: reflp_def advances_def)

lemma advances_transp:
  assumes "\<And>a b. P a \<Longrightarrow> P b \<Longrightarrow> P (a @ b)"
  shows "transp (advances P)"
proof (rule transpI)
  fix x y z
  assume "advances P x y" and "advances P y z"
  then obtain a b where a: "suffix (script y) (script x)" "trace y = trace x @ a" "P a"
    and b: "suffix (script z) (script y)" "trace z = trace y @ b" "P b"
    by (auto elim!: advancesE)
  show "advances P x z"
  proof (rule advancesI)
    show "suffix (script z) (script x)" using a(1) b(1) by (rule suffix_order.trans [rotated])
    show "trace z = trace x @ (a @ b)" using a(2) b(2) by simp
    show "P (a @ b)" using a(3) b(3) by (rule assms)
  qed
qed

lemma steps_weaken:
  assumes "steps (advances P) m" and "\<And>es. P es \<Longrightarrow> Q es"
  shows "steps (advances Q) m"
  using assms by (auto simp add: steps_def advances_def)

lemma steps_suffix: "steps (advances P) m \<Longrightarrow> m w = (r, w') \<Longrightarrow> suffix (script w') (script w)"
  by (auto dest!: stepsD simp add: advances_def)

lemma call_world:
  "snd (call e act w) =
     (case thrown (script w) of
        Some msg \<Rightarrow> w\<lparr>trace := trace w @ [Rejected e msg], script := tl (script w)\<rparr>
      | None \<Rightarrow> (snd (act w))\<lparr>trace := trace w @ [e], script := tl (script w)\<rparr>)"
  by (simp add: call_def split: option.splits prod.splits)

lemma silent_call:
  assumes "published [e] = []"
  shows "steps (advances silent) (call e act)"
  unfolding steps_def
proof
  fix w
  show "advances silent w (snd (call e act w))"
    using assms
    by (cases "thrown (script w)")
      (simp_all add: call_world advances_def silent_def)
qed

lemma keepAlives_publish:
  "steps (advances keepAlives) (updateTransitionStatus u InProgress ts)"
  unfolding steps_def updateTransitionStatus_def
proof
  fix w
  show "advances keepAlives w
          (snd (call (Publish u InProgress Revisions ts) (\<lambda>w. ((), w)) w))"
    by (cases "thrown (script w)")
      (simp_all add: call_world advances_def keepAlives_def)
qed

lemma silent_prims:
  "steps (advances silent) (countByUserUuid r u)"
  "steps (advances silent) (findByUserUuid r u offset limit)"
  "steps (advances silent) (findOneByUuid r i u)"
  "steps (advances silent) (removeOneByUuid r i u)"
  "steps (advances silent) (removeByUserUuid r u)"
  "steps (advances silent) (getPagingProgress u)"
  "steps (advances silent) (setPagingProgress u p)"
  "steps (advances silent) (getIntegrityProgress u)"
  "steps (advances silent) (setIntegrityProgress u p)"
  by (simp_all add: countByUserUuid_def findByUserUuid_def findOneByUuid_def
      removeOneByUuid_def removeByUserUuid_def getPagingProgress_def setPagingProgress_def
      getIntegrityProgress_def setIntegrityProgress_def silent_call published_def)
    (simp add: steps_def advances_def silent_def)

lemma silent_local:
  "steps (advances silent) (insertRevision r revision)"
  "steps (advances silent) (logError m)"
  "steps (advances silent) (sleep ms)"
  "steps (advances silent) (uuidGetValue d s)"
  "steps (advances silent) (ret x)"
  "steps (advances silent) (throw msg)"
proof -
  show "steps (advances silent) (insertRevision r revision)"
    unfolding steps_def
  proof
    fix w
    have "steps (advances silent) (call (Insert r revision True)
            (\<lambda>w. (True, w\<lparr>revisions := (revisions w)(r := revisions w r @ [revision])\<rparr>)))"
      by (rule silent_call) (simp add: published_def)
    then have "advances silent w (snd (call (Insert r revision True)
            (\<lambda>w. (True, w\<lparr>revisions := (revisions w)(r := revisions w r @ [revision])\<rparr>)) w))"
      by (simp add: steps_def)
    then show "advances silent w (snd (insertRevision r revision w))"
      by (simp add: insertRevision_def advances_def silent_def published_def)
  qed
qed (simp_all add: steps_def advances_def silent_def logError_def sleep_def uuidGetValue_def
    ret_def throw_def published_def)

lemmas silent_intros =
  steps_andThen [OF advances_transp, of silent, OF silent_append]
  steps_tryCatch [OF advances_transp, of silent, OF silent_append]
  silent_prims silent_local

lemma silent_migrateRevision: "steps (advances silent) (migrateRevision d u revision)"
  unfolding migrateRevision_def allowForPrimaryDatabaseToCatchUp_def
  by (intro silent_intros) (auto split: option.splits intro!: silent_intros)

lemma silent_migrateRevisions: "steps (advances silent) (migrateRevisions d u rs)"
  by (induction rs) (auto intro!: silent_intros silent_migrateRevision)

lemmas keepAlives_intros =
  steps_andThen [OF advances_transp, of keepAlives, OF keepAlives_append]
  steps_tryCatch [OF advances_transp, of keepAlives, OF keepAlives_append]
  keepAlives_publish
  silent_prims [THEN steps_weaken, of keepAlives, OF silent_keepAlives]
  silent_local [THEN steps_weaken, of keepAlives, OF silent_keepAlives]
  silent_migrateRevisions [THEN steps_weaken, of keepAlives, OF silent_keepAlives]

lemma keepAlives_migratePage: "steps (advances keepAlives) (migratePage d u ts tp p)"
  unfolding migratePage_def
  by (intro keepAlives_intros steps_if)

lemma suffix_length_tl: "suffix ys (tl xs) \<Longrightarrow> xs \<noteq> [] \<Longrightarrow> length ys < length xs"
  by (cases xs) (auto dest: suffix_length_le)

lemma call_script: "call e act w = (r, w') \<Longrightarrow> script w' = tl (script w)"
  using call_world [of e act w] by (auto split: option.splits)

text \<open>An iteration of the page loop that returns has consumed an entry of a non-empty schedule.\<close>

lemma migratePage_consumes:
  assumes "migratePage d u ts tp p w = (Returns x, w')" and "script w \<noteq> []"
  shows "length (script w') < length (script w)"
proof -
  let ?first = "if isPageInEvery10Percent p tp
                then updateTransitionStatus u InProgress ts else ret ()"
  let ?rest = "andThen (findByUserUuid Secondary u ((int p - 1) * int (pageSize d)) (pageSize d))
                 (\<lambda>revisions. migrateRevisions d u revisions)"
  obtain r1 w1 where 1: "?first w = (r1, w1)" by (cases "?first w")
  have "steps (advances keepAlives) ?first"
    by (intro keepAlives_intros steps_if)
  then have s1: "suffix (script w1) (script w)"
    using 1 by (rule steps_suffix)
  from assms(1) 1 obtain y where r1: "r1 = Returns y"
    by (cases r1) (simp_all add: migratePage_def andThen_def)
  obtain r2 w2 where 2: "setPagingProgress u p w1 = (r2, w2)"
    by (cases "setPagingProgress u p w1")
  have s2: "script w2 = tl (script w1)"
    using 2 by (auto simp add: setPagingProgress_def dest: call_script)
  from assms(1) 1 2 r1 obtain z where r2: "r2 = Returns z"
    by (cases r2) (simp_all add: migratePage_def andThen_def)
  have 3: "?rest w2 = (Returns x, w')"
    using assms(1) 1 2 r1 r2 by (simp add: migratePage_def andThen_def)
  have "steps (advances keepAlives) ?rest"
    by (intro keepAlives_intros)
  then have s3: "suffix (script w') (script w2)"
    using 3 by (rule steps_suffix)
  show ?thesis
  proof (cases "script w1 = []")
    case True
    then have "script w' = []" using s2 s3 by simp
    then show ?thesis using assms(2) by simp
  next
    case False
    have "length (script w') < length (script w1)"
      using s3 s2 False by (simp add: suffix_length_tl)
    then show ?thesis using s1 by (auto dest: suffix_length_le)
  qed
qed

text \<open>
  The page loop when \<^verbatim>\<open>totalPages\<close> is \<^verbatim>\<open>Infinity\<close> (page size 0 and a
  user with revisions): \<^verbatim>\<open>currentPage <= totalPages\<close> always holds, so the loop ends
  only when a call throws. Once the schedule is used up no call throws any more and the
  loop never returns. It terminates as a function because every iteration consumes an
  entry of the schedule.
\<close>

function spinPages :: "deps \<Rightarrow> string \<Rightarrow> int \<Rightarrow> nat \<Rightarrow> unit io" where
  "spinPages d userUuid timestamp currentPage w =
     (if script w = [] then (Diverges, w)
      else (case migratePage d userUuid timestamp InfinitePages currentPage w of
              (Returns x, w') \<Rightarrow> spinPages d userUuid timestamp (currentPage + 1) w'
            | (Throws msg, w') \<Rightarrow> (Throws msg, w')
            | (Diverges, w') \<Rightarrow> (Diverges, w')))"
  by pat_completeness auto
termination
  by (relation "measure (\<lambda>(d, u, ts, p, w). length (script w))")
    (auto dest: migratePage_consumes [OF sym])

text \<open>The loop of line 116 for the three kinds of bound; with \<^verbatim>\<open>NaN\<close> the test fails at once.\<close>

definition migratePages :: "deps \<Rightarrow> string \<Rightarrow> int \<Rightarrow> page_count \<Rightarrow> nat \<Rightarrow> unit io" where
  "migratePages d userUuid timestamp totalPages initialPage =
     (case totalPages of
        Pages t \<Rightarrow> migratePagesLoop d userUuid timestamp totalPages (t + 1 - initialPage) initialPage
      | InfinitePages \<Rightarrow> spinPages d userUuid timestamp initialPage
      | NaNPages \<Rightarrow> ret ())"

text \<open>\<^verbatim>\<open>migrateRevisionsForUser\<close>, lines 104 to 190.\<close>

definition migrateRevisionsForUser :: "deps \<Rightarrow> string \<Rightarrow> int \<Rightarrow> unit result io" where
  "migrateRevisionsForUser d userUuid timestamp =
     tryCatch
       (andThen (getPagingProgress userUuid) (\<lambda>initialPage.
        andThen (countByUserUuid Secondary userUuid) (\<lambda>totalRevisionsCountForUser.
        andThen (migratePages d userUuid timestamp
                   (mathCeilDiv totalRevisionsCountForUser (pageSize d)) initialPage) (\<lambda>_.
        ret (Ok ())))))
       (\<lambda>msg. ret (Fail (ErroredWhenMigrating userUuid msg)))"

subsection \<open>The integrity check (lines 212 to 287)\<close>

text \<open>
  The body of \<^verbatim>\<open>for (const revision of revisions)\<close>, lines 247 to 277:
  \<open>Fail\<close> is a \<^verbatim>\<open>return Result.fail(...)\<close> out of both loops, \<open>Ok\<close> goes
  on with the next revision. The lookup uses the user of the migration.
\<close>

definition checkRevision :: "deps \<Rightarrow> string \<Rightarrow> revision \<Rightarrow> unit result io" where
  "checkRevision d userUuid revision =
     (if \<not> uuidIsValid d (rev_id revision) then ret (Fail (InvalidUuid (rev_id revision)))
      else
        andThen (findOneByUuid Primary (rev_id revision) userUuid) (\<lambda>revisionInPrimary.
          case revisionInPrimary of
            None \<Rightarrow> ret (Fail (NotFoundInPrimary (rev_id revision)))
          | Some p \<Rightarrow>
              if rev_updatedAt p > rev_updatedAt revision then ret (Ok ())
              else if isIdenticalTo d revision p then ret (Ok ())
              else ret (Fail (NotIdentical (rev_id revision) p revision))))"

fun checkRevisions :: "deps \<Rightarrow> string \<Rightarrow> revision list \<Rightarrow> unit result io" where
  "checkRevisions d userUuid [] = ret (Ok ())"
| "checkRevisions d userUuid (revision # rest) =
     andThen (checkRevision d userUuid revision) (\<lambda>checked.
       case checked of
         Fail e \<Rightarrow> ret (Fail e)
       | Ok _ \<Rightarrow> checkRevisions d userUuid rest)"

text \<open>The body of the page loop, lines 233 to 278, and the loop with a finite bound.\<close>

definition checkPage :: "deps \<Rightarrow> string \<Rightarrow> nat \<Rightarrow> unit result io" where
  "checkPage d userUuid currentPage =
     andThen (setIntegrityProgress userUuid currentPage) (\<lambda>_.
     andThen (findByUserUuid Secondary userUuid
                ((int currentPage - 1) * int (pageSize d)) (pageSize d)) (\<lambda>revisions.
     checkRevisions d userUuid revisions))"

fun checkPagesLoop :: "deps \<Rightarrow> string \<Rightarrow> nat \<Rightarrow> nat \<Rightarrow> unit result io" where
  "checkPagesLoop d userUuid 0 currentPage = ret (Ok ())"
| "checkPagesLoop d userUuid (Suc n) currentPage =
     andThen (checkPage d userUuid currentPage) (\<lambda>checked.
       case checked of
         Fail e \<Rightarrow> ret (Fail e)
       | Ok _ \<Rightarrow> checkPagesLoop d userUuid n (currentPage + 1))"

lemma silent_checkRevisions: "steps (advances silent) (checkRevisions d u rs)"
proof (induction rs)
  case Nil
  show ?case by (simp add: silent_intros)
next
  case (Cons r rs)
  have "steps (advances silent) (checkRevision d u r)"
    unfolding checkRevision_def
    by (auto split: option.splits intro!: silent_intros)
  with Cons show ?case
    by (auto split: result.splits intro!: silent_intros)
qed

lemma silent_checkPage: "steps (advances silent) (checkPage d u p)"
  unfolding checkPage_def
  by (intro silent_intros silent_checkRevisions)

lemma checkPage_consumes:
  assumes "checkPage d u p w = (r, w')" and "script w \<noteq> []"
  shows "length (script w') < length (script w)"
proof -
  let ?rest = "andThen (findByUserUuid Secondary u ((int p - 1) * int (pageSize d)) (pageSize d))
                 (\<lambda>revisions. checkRevisions d u revisions)"
  obtain r1 w1 where 1: "setIntegrityProgress u p w = (r1, w1)"
    by (cases "setIntegrityProgress u p w")
  have s1: "script w1 = tl (script w)"
    using 1 by (auto simp add: setIntegrityProgress_def dest: call_script)
  have "steps (advances silent) ?rest"
    by (intro silent_intros silent_checkRevisions)
  then have "suffix (script (snd (?rest w1))) (script w1)"
    by (simp add: steps_def advances_def)
  moreover have "script w' = script w1 \<or> script w' = script (snd (?rest w1))"
    using assms(1) 1 by (cases r1) (auto simp add: checkPage_def andThen_def)
  ultimately have "suffix (script w') (tl (script w))"
    using s1 by auto
  then show ?thesis using assms(2) by (rule suffix_length_tl)
qed

text \<open>The same loop with the bound \<^verbatim>\<open>Infinity\<close> (page size 0, so a page holds no revision).\<close>

function spinCheck :: "deps \<Rightarrow> string \<Rightarrow> nat \<Rightarrow> unit result io" where
  "spinCheck d userUuid currentPage w =
     (if script w = [] then (Diverges, w)
      else (case checkPage d userUuid currentPage w of
              (Returns (Ok x), w') \<Rightarrow> spinCheck d userUuid (currentPage + 1) w'
            | (Returns (Fail e), w') \<Rightarrow> (Returns (Fail e), w')
            | (Throws msg, w') \<Rightarrow> (Throws msg, w')
            | (Diverges, w') \<Rightarrow> (Diverges, w')))"
  by pat_completeness auto
termination
  by (relation "measure (\<lambda>(d, u, p, w). length (script w))")
    (auto dest: checkPage_consumes [OF sym])

definition checkPages :: "deps \<Rightarrow> string \<Rightarrow> page_count \<Rightarrow> nat \<Rightarrow> unit result io" where
  "checkPages d userUuid totalPages initialPage =
     (case totalPages of
        Pages t \<Rightarrow> checkPagesLoop d userUuid (t + 1 - initialPage) initialPage
      | InfinitePages \<Rightarrow> spinCheck d userUuid initialPage
      | NaNPages \<Rightarrow> ret (Ok ()))"

definition checkIntegrityBetweenPrimaryAndSecondaryDatabase :: "deps \<Rightarrow> string \<Rightarrow> unit result io" where
  "checkIntegrityBetweenPrimaryAndSecondaryDatabase d userUuid =
     tryCatch
       (andThen (getIntegrityProgress userUuid) (\<lambda>initialPage.
        andThen (countByUserUuid Secondary userUuid) (\<lambda>totalRevisionsCountForUserInSecondary.
        andThen (countByUserUuid Primary userUuid) (\<lambda>totalRevisionsCountForUserInPrimary.
          if totalRevisionsCountForUserInPrimary < totalRevisionsCountForUserInSecondary
          then ret (Fail (CountMismatch userUuid totalRevisionsCountForUserInPrimary
                 totalRevisionsCountForUserInSecondary))
          else checkPages d userUuid
                 (mathCeilDiv totalRevisionsCountForUserInPrimary (pageSize d)) initialPage))))
       (\<lambda>msg. ret (Fail (ErroredWhenCheckingIntegrity msg)))"

subsection \<open>execute (lines 24 to 102)\<close>

text \<open>
  After a failed cleanup (lines 82 to 88) the method publishes Failed, logs the error and
  goes on to line 90: there is no \<^verbatim>\<open>return\<close> in that block.
\<close>

definition execute :: "deps \<Rightarrow> dto \<Rightarrow> unit result io" where
  "execute d dto =
     (if \<not> secondRevisionsRepositorySet d then ret (Fail SecondaryRepositoryNotSet)
      else if \<not> transitionStatusRepositorySet d then ret (Fail TransitionStatusRepositoryNotSet)
      else if \<not> uuidIsValid d (dto_userUuid dto) then ret (Fail (InvalidUuid (dto_userUuid dto)))
      else
        let userUuid = dto_userUuid dto in
        andThen (isAlreadyMigrated userUuid) (\<lambda>alreadyMigrated.
          if alreadyMigrated
          then andThen (updateTransitionStatus userUuid Verified (dto_timestamp dto))
                 (\<lambda>_. ret (Ok ()))
          else
            andThen (updateTransitionStatus userUuid InProgress (dto_timestamp dto)) (\<lambda>_.
            andThen (migrateRevisionsForUser d userUuid (dto_timestamp dto)) (\<lambda>migrationResult.
              case migrationResult of
                Fail e \<Rightarrow>
                  andThen (updateTransitionStatus userUuid Failed (dto_timestamp dto))
                    (\<lambda>_. ret (Fail e))
              | Ok _ \<Rightarrow>
                  andThen allowForPrimaryDatabaseToCatchUp (\<lambda>_.
                  andThen (checkIntegrityBetweenPrimaryAndSecondaryDatabase d userUuid)
                    (\<lambda>integrityCheckResult.
                    case integrityCheckResult of
                      Fail e \<Rightarrow>
                        andThen (setPagingProgress userUuid 1) (\<lambda>_.
                        andThen (setIntegrityProgress userUuid 1) (\<lambda>_.
                        andThen (updateTransitionStatus userUuid Failed (dto_timestamp dto))
                          (\<lambda>_. ret (Fail e))))
                    | Ok _ \<Rightarrow>
                        andThen (deleteRevisionsForUser userUuid Secondary) (\<lambda>cleanupResult.
                        andThen
                          (case cleanupResult of
                             Fail e \<Rightarrow>
                               andThen (updateTransitionStatus userUuid Failed (dto_timestamp dto))
                                 (\<lambda>_. logError (FailedToCleanUp (dto_userUuid dto) e))
                           | Ok _ \<Rightarrow> ret ()) (\<lambda>_.
                        andThen (updateTransitionStatus userUuid Verified (dto_timestamp dto))
                          (\<lambda>_. ret (Ok ()))))))))))"

subsection \<open>Notions used in the statements\<close>

text \<open>
  \<open>calm n fs\<close>: the next \<open>n\<close> calls on collaborators succeed (none throws and no
  insert returns false).
\<close>

definition calm :: "nat \<Rightarrow> fault list \<Rightarrow> bool" where
  "calm n fs = list_all (\<lambda>f. f = NoFault) (take n fs)"

text \<open>\<open>noThrow fs\<close>: no call throws (an insert may still return false).\<close>

definition noThrow :: "fault list \<Rightarrow> bool" where
  "noThrow fs = list_all (\<lambda>f. case f of Throw msg \<Rightarrow> False | _ \<Rightarrow> True) fs"

text \<open>
  Two properties of computations used in the proofs: never failing to return, and
  returning a value whenever no call throws.
\<close>

definition neverDiverges :: "'a io \<Rightarrow> bool" where
  "neverDiverges m = (\<forall>w. fst (m w) \<noteq> Diverges)"


text \<open>
  The order the specification states for the status events of one call: InProgress
  first, then any number of InProgress, then one terminal status and nothing after it.
\<close>

fun keepAlivesThenTerminal :: "transition_status list \<Rightarrow> bool" where
  "keepAlivesThenTerminal [t] = (t = Verified \<or> t = Failed)"
| "keepAlivesThenTerminal (InProgress # rest) = keepAlivesThenTerminal rest"
| "keepAlivesThenTerminal other = False"

fun strictOrder :: "transition_status list \<Rightarrow> bool" where
  "strictOrder (InProgress # rest) = keepAlivesThenTerminal rest"
| "strictOrder other = False"

text \<open>The error log of line 85, written when the cleanup of the secondary store failed.\<close>

fun isCleanUpFailure :: "effect \<Rightarrow> bool" where
  "isCleanUpFailure (LogError (FailedToCleanUp u e)) = True"
| "isCleanUpFailure other = False"

text \<open>What \<^verbatim>\<open>findOneByUuid\<close> on the primary store answers for a revision's id and user.\<close>

definition inPrimary :: "revision \<Rightarrow> world \<Rightarrow> revision option" where
  "inPrimary r w =
     find (\<lambda>x. rev_id x = rev_id r \<and> rev_userUuid x = rev_userUuid r) (revisions w Primary)"

text \<open>\<open>faultFree fs\<close>: no call throws and no insert returns false.\<close>

definition faultFree :: "fault list \<Rightarrow> bool" where
  "faultFree fs = list_all (\<lambda>f. f = NoFault) fs"

text \<open>
  The primary store after one revision of the secondary store has been handled, in the
  words of section 4.2 of the specification: skip when the primary copy is newer, skip when
  it is identical, otherwise delete the primary copy and insert, and insert when primary
  has no copy. A revision whose id is not a uuid raises a per-revision exception, which is
  logged and swallowed.
\<close>

definition expectedPrimary :: "deps \<Rightarrow> revision list \<Rightarrow> revision \<Rightarrow> revision list" where
  "expectedPrimary d primary r =
     (if \<not> uuidIsValid d (rev_id r) then primary
      else case find (\<lambda>x. rev_id x = rev_id r \<and> rev_userUuid x = rev_userUuid r) primary of
             None \<Rightarrow> primary @ [r]
           | Some p \<Rightarrow>
               if rev_updatedAt p > rev_updatedAt r then primary
               else if isIdenticalTo d p r then primary
               else filter (\<lambda>x. \<not> (rev_id x = rev_id r \<and> rev_userUuid x = rev_userUuid r)) primary
                      @ [r])"

text \<open>
  The verdict on one revision and on a list of revisions, in the words of section 4.3 of
  the specification: the revision must exist in primary; it is accepted when the primary
  copy is newer, else the two must be identical. A revision whose id is not a uuid fails
  the check (line 249). The first failure is the verdict on the list.
\<close>

definition expectedVerdict :: "deps \<Rightarrow> string \<Rightarrow> revision list \<Rightarrow> revision \<Rightarrow> unit result" where
  "expectedVerdict d u primary r =
     (if \<not> uuidIsValid d (rev_id r) then Fail (InvalidUuid (rev_id r))
      else case find (\<lambda>x. rev_id x = rev_id r \<and> rev_userUuid x = u) primary of
             None \<Rightarrow> Fail (NotFoundInPrimary (rev_id r))
           | Some p \<Rightarrow>
               if rev_updatedAt p > rev_updatedAt r then Ok ()
               else if isIdenticalTo d r p then Ok ()
               else Fail (NotIdentical (rev_id r) p r))"

fun expectedVerdicts :: "deps \<Rightarrow> string \<Rightarrow> revision list \<Rightarrow> revision list \<Rightarrow> unit result" where
  "expectedVerdicts d u primary [] = Ok ()"
| "expectedVerdicts d u primary (r # rest) =
     (case expectedVerdict d u primary r of
        Fail e \<Rightarrow> Fail e
      | Ok _ \<Rightarrow> expectedVerdicts d u primary rest)"

text \<open>
  \<open>settles m w x primary\<close>: run in \<open>w\<close>, the computation returns \<open>x\<close>, leaves
  \<open>primary\<close> in the primary store and the secondary store as it was, and consumes
  entries of the schedule from the front.
\<close>

definition settles :: "'a io \<Rightarrow> world \<Rightarrow> 'a \<Rightarrow> revision list \<Rightarrow> bool" where
  "settles m w x primary =
     (fst (m w) = Returns x
      \<and> revisions (snd (m w)) = (revisions w)(Primary := primary)
      \<and> suffix (script (snd (m w))) (script w))"

text \<open>A configuration, a request and worlds to run the migrator on.\<close>

definition exampleDeps :: deps where
  "exampleDeps =
     \<lparr>secondRevisionsRepositorySet = True, transitionStatusRepositorySet = True, pageSize = 5,
      uuidIsValid = (\<lambda>s. s \<noteq> []), isIdenticalTo = (\<lambda>a b. a = b)\<rparr>"

definition exampleDto :: dto where
  "exampleDto = \<lparr>dto_userUuid = ''u1'', dto_timestamp = 9\<rparr>"

definition exampleRevision :: revision where
  "exampleRevision =
     \<lparr>rev_id = ''r1'', rev_userUuid = ''u1'', rev_createdAt = 100, rev_updatedAt = 200,
      rev_payload = ''new''\<rparr>"

definition olderRevision :: revision where
  "olderRevision =
     \<lparr>rev_id = ''r1'', rev_userUuid = ''u1'', rev_createdAt = 100, rev_updatedAt = 100,
      rev_payload = ''old''\<rparr>"

definition exampleWorld :: "revision list \<Rightarrow> revision list \<Rightarrow> fault list \<Rightarrow> world" where
  "exampleWorld primary secondary faults =
     \<lparr>revisions = (\<lambda>r. case r of Primary \<Rightarrow> primary | Secondary \<Rightarrow> secondary),
      pagingProgress = Map.empty, integrityProgress = Map.empty, trace = [], script = faults\<rparr>"

section \<open>The sync item updater (UpdateExistingItem)\<close>

text \<open>
  Of this use case the sources hold the unit tests only
  (UpdateExistingItem.spec.ts); the class itself, the item, the item hash and the two
  association entities are not among them. The definitions of this section follow
  section 4.6 and the data model of the specification.
\<close>

record shared_vault_association =
  sva_id :: nat
  sva_itemId :: string
  sva_sharedVaultId :: string
  sva_lastEditedBy :: string
  sva_timestamps :: "int \<times> int"

record key_system_association =
  ksa_id :: nat
  ksa_itemId :: string
  ksa_keySystemId :: string
  ksa_timestamps :: "int \<times> int"

record item =
  item_itemId :: string
  item_userId :: string
  item_sessionId :: "string option"
  item_content :: "string option"
  item_contentType :: string
  item_encItemKey :: "string option"
  item_authHash :: "string option"
  item_itemsKeyId :: "string option"
  item_duplicateOf :: "string option"
  item_deleted :: bool
  item_dates :: "int \<times> int"
  item_timestamps :: "int \<times> int"
  item_sharedVaultAssociation :: "shared_vault_association option"
  item_keySystemAssociation :: "key_system_association option"

record item_hash =
  hash_content :: "string option"
  hash_content_type :: string
  hash_enc_item_key :: "string option"
  hash_auth_hash :: "string option"
  hash_items_key_id :: "string option"
  hash_duplicate_of :: "string option"
  hash_deleted :: "bool option"
  hash_created_at :: "string option"
  hash_updated_at :: "string option"
  hash_created_at_timestamp :: "int option"
  hash_updated_at_timestamp :: "int option"
  hash_shared_vault_uuid :: "string option"
  hash_key_system_identifier :: "string option"

datatype sync_event =
    ItemRevisionCreationRequested string string
  | DuplicateItemSynced string string string

datatype sync_error =
    InvalidSessionId
  | InvalidPerformingUserId
  | UnknownContentType
  | InvalidDuplicateOf
  | CreationTimeMissing
  | InvalidSharedVaultUuid
  | InvalidKeySystemIdentifier
  | TimestampsMissing
  | DatesNotConstructible

text \<open>
  What the updater takes from its surroundings: which strings parse as identifiers, the
  vocabulary of content types, the parsing of a date string into microseconds, and
  whether a pair of creation and update times can be constructed.
\<close>

record sync_deps =
  parsesAsIdentifier :: "string \<Rightarrow> bool"
  knownContentType :: "string \<Rightarrow> bool"
  parseDate :: "string \<Rightarrow> int"
  datesConstructible :: "int \<Rightarrow> int \<Rightarrow> bool"

text \<open>
  The item repository and the event bus as the updater sees them, and the supply of
  identities for entities it creates.
\<close>

record sync_world =
  savedItems :: "item list"
  publishedEvents :: "sync_event list"
  nextEntityId :: nat

text \<open>
  Modelled from the spec: the timestamps rule of section 4.6. With both microsecond
  fields present they are used directly; else the two date strings are parsed; with
  neither form the update fails.
\<close>

definition hashTimestamps :: "sync_deps \<Rightarrow> item_hash \<Rightarrow> (int \<times> int) option" where
  "hashTimestamps d h =
     (case (hash_created_at_timestamp h, hash_updated_at_timestamp h) of
        (Some c, Some u) \<Rightarrow> Some (c, u)
      | _ \<Rightarrow>
          (case (hash_created_at h, hash_updated_at h) of
             (Some c, Some u) \<Rightarrow> Some (parseDate d c, parseDate d u)
           | _ \<Rightarrow> None))"

text \<open>
  Modelled from the spec: the shared vault rule. A new association is created when the
  hash names a vault and the item has no association or one of another vault; otherwise
  the item keeps the association it has.
\<close>

definition updateSharedVaultAssociation ::
  "item_hash \<Rightarrow> string \<Rightarrow> item \<Rightarrow> sync_world \<Rightarrow> item \<times> sync_world" where
  "updateSharedVaultAssociation h performingUserId it w =
     (case hash_shared_vault_uuid h of
        None \<Rightarrow> (it, w)
      | Some vault \<Rightarrow>
          if (case item_sharedVaultAssociation it of
                None \<Rightarrow> True
              | Some a \<Rightarrow> sva_sharedVaultId a \<noteq> vault)
          then (it\<lparr>item_sharedVaultAssociation :=
                      Some \<lparr>sva_id = nextEntityId w, sva_itemId = item_itemId it,
                            sva_sharedVaultId = vault, sva_lastEditedBy = performingUserId,
                            sva_timestamps = item_timestamps it\<rparr>\<rparr>,
                w\<lparr>nextEntityId := nextEntityId w + 1\<rparr>)
          else (it, w))"

text \<open>Modelled from the spec: the key system rule, symmetric to the shared vault rule.\<close>

definition updateKeySystemAssociation :: "item_hash \<Rightarrow> item \<Rightarrow> sync_world \<Rightarrow> item \<times> sync_world" where
  "updateKeySystemAssociation h it w =
     (case hash_key_system_identifier h of
        None \<Rightarrow> (it, w)
      | Some keySystem \<Rightarrow>
          if (case item_keySystemAssociation it of
                None \<Rightarrow> True
              | Some a \<Rightarrow> ksa_keySystemId a \<noteq> keySystem)
          then (it\<lparr>item_keySystemAssociation :=
                      Some \<lparr>ksa_id = nextEntityId w, ksa_itemId = item_itemId it,
                            ksa_keySystemId = keySystem, ksa_timestamps = item_timestamps it\<rparr>\<rparr>,
                w\<lparr>nextEntityId := nextEntityId w + 1\<rparr>)
          else (it, w))"

text \<open>
  Modelled from the spec: \<^verbatim>\<open>UpdateExistingItem.execute\<close>, whose source is missing.
  The six validations come first, in the order of the specification, and the first
  failure is returned; then the update rules in their order; then the item is saved and
  the events are published.
\<close>

definition updateExistingItem ::
  "sync_deps \<Rightarrow> item \<Rightarrow> item_hash \<Rightarrow> string \<Rightarrow> string \<Rightarrow> sync_world
     \<Rightarrow> (sync_error + item) \<times> sync_world" where
  "updateExistingItem d existingItem h sessionId performingUserId w =
     (if \<not> parsesAsIdentifier d sessionId then (Inl InvalidSessionId, w)
      else if \<not> parsesAsIdentifier d performingUserId then (Inl InvalidPerformingUserId, w)
      else if \<not> knownContentType d (hash_content_type h) then (Inl UnknownContentType, w)
      else if (case hash_duplicate_of h of None \<Rightarrow> False | Some dup \<Rightarrow> \<not> parsesAsIdentifier d dup)
      then (Inl InvalidDuplicateOf, w)
      else if hash_created_at_timestamp h = None \<and> hash_created_at h = None
      then (Inl CreationTimeMissing, w)
      else if (case hash_shared_vault_uuid h of None \<Rightarrow> False | Some v \<Rightarrow> \<not> parsesAsIdentifier d v)
      then (Inl InvalidSharedVaultUuid, w)
      else if (case hash_key_system_identifier h of None \<Rightarrow> False
               | Some k \<Rightarrow> \<not> parsesAsIdentifier d k)
      then (Inl InvalidKeySystemIdentifier, w)
      else
        (case hashTimestamps d h of
           None \<Rightarrow> (Inl TimestampsMissing, w)
         | Some (createdAt, updatedAt) \<Rightarrow>
             if \<not> datesConstructible d createdAt updatedAt then (Inl DatesNotConstructible, w)
             else
               let copied = existingItem
                     \<lparr>item_sessionId := Some sessionId,
                      item_content := hash_content h,
                      item_contentType := hash_content_type h,
                      item_encItemKey := hash_enc_item_key h,
                      item_authHash := hash_auth_hash h,
                      item_itemsKeyId := hash_items_key_id h\<rparr>;
                   marked =
                     (if hash_deleted h = Some True
                      then copied\<lparr>item_deleted := True, item_content := None,
                                  item_encItemKey := None, item_authHash := None,
                                  item_itemsKeyId := None, item_duplicateOf := None\<rparr>
                      else copied\<lparr>item_duplicateOf := hash_duplicate_of h\<rparr>);
                   timed = marked\<lparr>item_dates := (createdAt, updatedAt),
                                   item_timestamps := (createdAt, updatedAt)\<rparr>;
                   (shared, w1) = updateSharedVaultAssociation h performingUserId timed w;
                   (keyed, w2) = updateKeySystemAssociation h shared w1;
                   events =
                     ItemRevisionCreationRequested (item_itemId keyed) (item_userId keyed)
                     # (case hash_duplicate_of h of
                          None \<Rightarrow> []
                        | Some dup \<Rightarrow>
                            [DuplicateItemSynced (item_itemId keyed) dup (item_userId keyed)])
               in (Inr keyed,
                   w2\<lparr>savedItems := savedItems w2 @ [keyed],
                      publishedEvents := publishedEvents w2 @ events\<rparr>)))"

text \<open>The item and the item hash of the unit tests, and surroundings to run the updater in.\<close>

definition exampleSyncDeps :: sync_deps where
  "exampleSyncDeps =
     \<lparr>parsesAsIdentifier = (\<lambda>s. length s = 36), knownContentType = (\<lambda>s. s = ''Note''),
      parseDate = (\<lambda>s. 123456789), datesConstructible = (\<lambda>c u. c \<le> u)\<rparr>"

definition exampleItem :: item where
  "exampleItem =
     \<lparr>item_itemId = ''00000000-0000-0000-0000-000000000000'',
      item_userId = ''00000000-0000-0000-0000-000000000000'',
      item_sessionId = None, item_content = Some ''foobar'', item_contentType = ''Note'',
      item_encItemKey = None, item_authHash = None, item_itemsKeyId = None,
      item_duplicateOf = None, item_deleted = False,
      item_dates = (1616164633241311, 1616164633241311),
      item_timestamps = (1616164633241311, 1616164633241311),
      item_sharedVaultAssociation = None, item_keySystemAssociation = None\<rparr>"

definition exampleHash :: item_hash where
  "exampleHash =
     \<lparr>hash_content = Some ''asdqwe1'', hash_content_type = ''Note'',
      hash_enc_item_key = Some ''qweqwe1'', hash_auth_hash = Some ''auth_hash'',
      hash_items_key_id = Some ''asdasd1'', hash_duplicate_of = None, hash_deleted = None,
      hash_created_at = Some ''2021-03-19T14:37:13.241Z'',
      hash_updated_at = Some ''2021-03-19T14:37:13.242Z'',
      hash_created_at_timestamp = None, hash_updated_at_timestamp = None,
      hash_shared_vault_uuid = None, hash_key_system_identifier = None\<rparr>"

definition exampleSyncWorld :: sync_world where
  "exampleSyncWorld = \<lparr>savedItems = [], publishedEvents = [], nextEntityId = 7\<rparr>"

section \<open>Properties of the scheduler driver\<close>

lemma processUser_users [simp]: "users (processUser forceRun timestamp usr w) = users w"
  by (simp add: processUser_def getStatus_def removeStatus_def publishTransitionRequested_def
      Let_def)

lemma processUsers_users [simp]: "users (processUsers forceRun timestamp us w) = users w"
  by (induction us arbitrary: w) simp_all

lemma processUsers_append:
  "processUsers forceRun timestamp (us @ vs) w =
     processUsers forceRun timestamp vs (processUsers forceRun timestamp us w)"
  by (induction us arbitrary: w) simp_all

lemma take_drop_page: "take n (drop k xs) @ take m (drop (k + n) xs) = take (n + m) (drop k xs)"
  by (metis add.commute drop_drop take_add)

lemma userPages_all:
  "userPages n (Suc p) forceRun timestamp startDate endDate w =
     processUsers forceRun timestamp
       (take (n * pageLimit) (drop (p * pageLimit) (createdBetween startDate endDate (users w)))) w"
proof (induction n arbitrary: p w)
  case 0
  show ?case by simp
next
  case (Suc n)
  have "take pageLimit (drop (p * pageLimit) (createdBetween startDate endDate (users w)))
        @ take (n * pageLimit) (drop (Suc p * pageLimit) (createdBetween startDate endDate (users w)))
        = take (Suc n * pageLimit) (drop (p * pageLimit) (createdBetween startDate endDate (users w)))"
    using take_drop_page [of pageLimit "p * pageLimit" _ "n * pageLimit"]
    by (simp add: add.commute)
  then show ?case
    using Suc.IH [of "Suc p"]
    by (simp add: findAllCreatedBetween_def Let_def processUsers_append [symmetric])
qed

text \<open>
  The paging of the driver visits every user created in the window once, in the order of
  the repository: the whole run is the per-user step folded over those users.
\<close>

lemma requestTransition_examines_every_user:
  "requestTransition startDate endDate forceRunParam timestamp w =
     processUsers (forceRunParam = Some ''true'') timestamp
       (createdBetween startDate endDate (users w))
       (w\<lparr>itemTransitionsTriggered := 0, revisionTransitionsTriggered := 0\<rparr>)"
proof -
  let ?us = "createdBetween startDate endDate (users w)"
  have "length ?us \<le> ((length ?us + pageLimit - 1) div pageLimit) * pageLimit"
    by (simp add: pageLimit_def)
  then have "take (((length ?us + pageLimit - 1) div pageLimit) * pageLimit) ?us = ?us"
    by simp
  then show ?thesis
    using userPages_all [of "(length ?us + pageLimit - 1) div pageLimit" 0 "forceRunParam = Some ''true''"
        timestamp startDate endDate "w\<lparr>itemTransitionsTriggered := 0, revisionTransitionsTriggered := 0\<rparr>"]
    by (simp add: requestTransition_def countAllCreatedBetween_def Let_def)
qed

text \<open>
  C7. For every user the driver examines: the user is skipped (no status report is
  logged and nothing else is done) exactly when it lacks the TransitionUser role and both
  statuses are Verified; independently for each transition type, a transition is
  requested exactly when the status read for that type is absent, Failed, or InProgress
  with forceRun set; and on each trigger the row is removed before the event is
  published. The calls made for one user are the two status reads, the status report
  unless the user is skipped, then the removal and the request of the items trigger, then
  those of the revisions trigger; the rows cleared are those of the triggered types.
\<close>

theorem processUser_requests:
  "authTrace (processUser forceRun timestamp usr w) =
     authTrace w
     @ [GetStatus (user_uuid usr) Items, GetStatus (user_uuid usr) Revisions]
     @ (if TransitionUser \<notin> set (user_roles usr)
           \<and> transitionStatuses w (user_uuid usr, Items) = Some Verified
           \<and> transitionStatuses w (user_uuid usr, Revisions) = Some Verified
        then []
        else [LogTransitionStatus (user_uuid usr)
                (transitionStatuses w (user_uuid usr, Items))
                (transitionStatuses w (user_uuid usr, Revisions))
                (TransitionUser \<in> set (user_roles usr))])
     @ (if transitionStatuses w (user_uuid usr, Items) = None
           \<or> transitionStatuses w (user_uuid usr, Items) = Some Failed
           \<or> (transitionStatuses w (user_uuid usr, Items) = Some InProgress \<and> forceRun)
        then [RemoveStatus (user_uuid usr) Items,
              PublishTransitionRequested (user_uuid usr) Items timestamp]
        else [])
     @ (if transitionStatuses w (user_uuid usr, Revisions) = None
           \<or> transitionStatuses w (user_uuid usr, Revisions) = Some Failed
           \<or> (transitionStatuses w (user_uuid usr, Revisions) = Some InProgress \<and> forceRun)
        then [RemoveStatus (user_uuid usr) Revisions,
              PublishTransitionRequested (user_uuid usr) Revisions timestamp]
        else [])
   \<and> transitionStatuses (processUser forceRun timestamp usr w) =
       (\<lambda>(u, ty).
          if u = user_uuid usr
             \<and> (transitionStatuses w (u, ty) = Some Failed
                 \<or> (transitionStatuses w (u, ty) = Some InProgress \<and> forceRun))
          then None else transitionStatuses w (u, ty))"
proof
  show "authTrace (processUser forceRun timestamp usr w) =
     authTrace w
     @ [GetStatus (user_uuid usr) Items, GetStatus (user_uuid usr) Revisions]
     @ (if TransitionUser \<notin> set (user_roles usr)
           \<and> transitionStatuses w (user_uuid usr, Items) = Some Verified
           \<and> transitionStatuses w (user_uuid usr, Revisions) = Some Verified
        then []
        else [LogTransitionStatus (user_uuid usr)
                (transitionStatuses w (user_uuid usr, Items))
                (transitionStatuses w (user_uuid usr, Revisions))
                (TransitionUser \<in> set (user_roles usr))])
     @ (if transitionStatuses w (user_uuid usr, Items) = None
           \<or> transitionStatuses w (user_uuid usr, Items) = Some Failed
           \<or> (transitionStatuses w (user_uuid usr, Items) = Some InProgress \<and> forceRun)
        then [RemoveStatus (user_uuid usr) Items,
              PublishTransitionRequested (user_uuid usr) Items timestamp]
        else [])
     @ (if transitionStatuses w (user_uuid usr, Revisions) = None
           \<or> transitionStatuses w (user_uuid usr, Revisions) = Some Failed
           \<or> (transitionStatuses w (user_uuid usr, Revisions) = Some InProgress \<and> forceRun)
        then [RemoveStatus (user_uuid usr) Revisions,
              PublishTransitionRequested (user_uuid usr) Revisions timestamp]
        else [])"
    by (simp add: processUser_def getStatus_def removeStatus_def
        publishTransitionRequested_def list_ex_iff Let_def)
next
  have "\<And>u ty. transitionStatuses (processUser forceRun timestamp usr w) (u, ty) =
       (if u = user_uuid usr
             \<and> (transitionStatuses w (u, ty) = Some Failed
                 \<or> (transitionStatuses w (u, ty) = Some InProgress \<and> forceRun))
          then None else transitionStatuses w (u, ty))"
    subgoal for u ty
      by (cases ty)
        (auto simp add: processUser_def getStatus_def removeStatus_def
          publishTransitionRequested_def list_ex_iff Let_def)
    done
  then show "transitionStatuses (processUser forceRun timestamp usr w) =
       (\<lambda>(u, ty).
          if u = user_uuid usr
             \<and> (transitionStatuses w (u, ty) = Some Failed
                 \<or> (transitionStatuses w (u, ty) = Some InProgress \<and> forceRun))
          then None else transitionStatuses w (u, ty))"
    by (auto simp add: fun_eq_iff)
qed

theorem processUser_requests_witness:
  "authTrace
     (processUser True 7
        \<lparr>user_uuid = ''u1'', user_createdAt = 5, user_roles = [''CORE_USER'']\<rparr>
        \<lparr>transitionStatuses = (\<lambda>k. if k = (''u1'', Items) then Some Verified
                                   else if k = (''u1'', Revisions) then Some InProgress else None),
          users = [], authTrace = [], itemTransitionsTriggered = 0,
          revisionTransitionsTriggered = 0\<rparr>) =
     [GetStatus ''u1'' Items, GetStatus ''u1'' Revisions,
      LogTransitionStatus ''u1'' (Some Verified) (Some InProgress) False,
      RemoveStatus ''u1'' Revisions, PublishTransitionRequested ''u1'' Revisions 7]"
  using processUser_requests [of True 7
      "\<lparr>user_uuid = ''u1'', user_createdAt = 5, user_roles = [''CORE_USER'']\<rparr>"
      "\<lparr>transitionStatuses = (\<lambda>k. if k = (''u1'', Items) then Some Verified
                                   else if k = (''u1'', Revisions) then Some InProgress else None),
          users = [], authTrace = [], itemTransitionsTriggered = 0,
          revisionTransitionsTriggered = 0\<rparr>"]
  by (simp add: TransitionUser_def)

section \<open>Properties of the migrator\<close>

subsection \<open>What each method may do to the world\<close>

declare spinPages.simps [simp del] spinCheck.simps [simp del]

lemma keepAlives_trans:
  "advances keepAlives x y \<Longrightarrow> advances keepAlives y z \<Longrightarrow> advances keepAlives x z"
  using advances_transp [of keepAlives, OF keepAlives_append] by (blast dest: transpD)

lemma silent_trans:
  "advances silent x y \<Longrightarrow> advances silent y z \<Longrightarrow> advances silent x z"
  using advances_transp [of silent, OF silent_append] by (blast dest: transpD)

lemma keepAlives_spinPages: "advances keepAlives w (snd (spinPages d u ts p w))"
proof (induction d u ts p w rule: spinPages.induct)
  case (1 d u ts p w)
  show ?case
  proof (cases "script w = []")
    case True
    then show ?thesis
      by (subst spinPages.simps) (simp add: advances_def keepAlives_def)
  next
    case False
    obtain r w' where m: "migratePage d u ts InfinitePages p w = (r, w')"
      by (cases "migratePage d u ts InfinitePages p w")
    have a: "advances keepAlives w w'"
      using keepAlives_migratePage m by (rule stepsD)
    show ?thesis
    proof (cases r)
      case (Returns x)
      have "advances keepAlives w' (snd (spinPages d u ts (p + 1) w'))"
        using "1.IH" [OF False m [symmetric] Returns] .
      with a have "advances keepAlives w (snd (spinPages d u ts (p + 1) w'))"
        by (rule keepAlives_trans)
      then show ?thesis
        using False m Returns by (subst spinPages.simps) simp
    qed (use False m a in \<open>subst spinPages.simps, simp\<close>)+
  qed
qed

lemma keepAlives_migratePagesLoop:
  "steps (advances keepAlives) (migratePagesLoop d u ts tp n p)"
  by (induction n arbitrary: p) (auto intro!: keepAlives_intros keepAlives_migratePage)

lemma keepAlives_migrateRevisionsForUser:
  "steps (advances keepAlives) (migrateRevisionsForUser d u ts)"
proof -
  have "steps (advances keepAlives) (migratePages d u ts tp p)" for tp p
    by (cases tp)
      (simp_all add: migratePages_def keepAlives_migratePagesLoop keepAlives_intros,
        simp add: steps_def keepAlives_spinPages)
  then show ?thesis
    unfolding migrateRevisionsForUser_def
    by (intro keepAlives_intros)
qed

lemma silent_spinCheck: "advances silent w (snd (spinCheck d u p w))"
proof (induction d u p w rule: spinCheck.induct)
  case (1 d u p w)
  show ?case
  proof (cases "script w = []")
    case True
    then show ?thesis
      by (subst spinCheck.simps) (simp add: advances_def silent_def)
  next
    case False
    obtain r w' where m: "checkPage d u p w = (r, w')"
      by (cases "checkPage d u p w")
    have a: "advances silent w w'"
      using silent_checkPage m by (rule stepsD)
    show ?thesis
    proof (cases r)
      case (Returns c)
      show ?thesis
      proof (cases c)
        case (Ok x)
        have "advances silent w' (snd (spinCheck d u (p + 1) w'))"
          using "1.IH" [OF False m [symmetric] Returns Ok] .
        with a have "advances silent w (snd (spinCheck d u (p + 1) w'))"
          by (rule silent_trans)
        then show ?thesis
          using False m Returns Ok by (subst spinCheck.simps) simp
      next
        case (Fail e)
        then show ?thesis
          using False m a Returns by (subst spinCheck.simps) simp
      qed
    qed (use False m a in \<open>subst spinCheck.simps, simp\<close>)+
  qed
qed

lemma silent_checkPagesLoop: "steps (advances silent) (checkPagesLoop d u n p)"
  by (induction n arbitrary: p)
    (auto split: result.splits intro!: silent_intros silent_checkPage)

lemma silent_checkIntegrity:
  "steps (advances silent) (checkIntegrityBetweenPrimaryAndSecondaryDatabase d u)"
proof -
  have "steps (advances silent) (checkPages d u tp p)" for tp p
    by (cases tp)
      (simp_all add: checkPages_def silent_checkPagesLoop silent_intros,
        simp add: steps_def silent_spinCheck)
  then show ?thesis
    unfolding checkIntegrityBetweenPrimaryAndSecondaryDatabase_def
    by (intro silent_intros) (auto intro!: silent_intros)
qed

lemma silent_deleteRevisionsForUser: "steps (advances silent) (deleteRevisionsForUser u r)"
  unfolding deleteRevisionsForUser_def by (intro silent_intros)

lemma silent_isAlreadyMigrated: "steps (advances silent) (isAlreadyMigrated u)"
  unfolding isAlreadyMigrated_def by (intro silent_intros)

subsection \<open>Calls that succeed\<close>

lemma calm_SucD: "calm (Suc n) fs \<Longrightarrow> thrown fs = None \<and> \<not> refused fs \<and> calm n (tl fs)"
  by (cases fs) (auto simp add: calm_def)

lemma call_ok:
  "thrown (script w) = None \<Longrightarrow>
   call e act w =
     (Returns (fst (act w)), (snd (act w))\<lparr>trace := trace w @ [e], script := tl (script w)\<rparr>)"
  by (simp add: call_def split: prod.splits)

lemma call_thrown:
  "thrown (script w) = Some msg \<Longrightarrow>
   call e act w = (Throws msg, w\<lparr>trace := trace w @ [Rejected e msg], script := tl (script w)\<rparr>)"
  by (simp add: call_def)

lemma calm_mono: "calm n fs \<Longrightarrow> m \<le> n \<Longrightarrow> calm m fs"
  using set_take_subset_set_take [of m n fs] by (auto simp add: calm_def list_all_iff)

subsection \<open>The short circuit\<close>

text \<open>
  C5. For a user with no revision in the secondary store (both repositories configured,
  a valid user id, the two calls made do not throw), execute counts the user's secondary
  revisions, publishes Verified and returns success. The world it leaves differs from the
  one it found only by these two calls: no call is made on the primary store and neither
  progress counter is written.
\<close>

theorem execute_short_circuit:
  assumes "secondRevisionsRepositorySet d" and "transitionStatusRepositorySet d"
    and "uuidIsValid d (dto_userUuid dto)"
    and "length (ofUser (dto_userUuid dto) (revisions w Secondary)) = 0"
    and "calm 2 (script w)"
  shows "execute d dto w =
     (Returns (Ok ()),
      w\<lparr>trace := trace w @ [CountByUserUuid Secondary (dto_userUuid dto),
                              Publish (dto_userUuid dto) Verified Revisions (dto_timestamp dto)],
        script := drop 2 (script w)\<rparr>)"
proof -
  have c: "thrown (script w) = None" "thrown (tl (script w)) = None"
    using assms(5) by (auto simp add: eval_nat_numeral dest!: calm_SucD)
  show ?thesis
    using assms(1-4) c
    by (simp add: execute_def isAlreadyMigrated_def countByUserUuid_def
        updateTransitionStatus_def andThen_def ret_def call_ok Let_def drop_Suc eval_nat_numeral)
qed

theorem execute_short_circuit_witness:
  "fst (execute exampleDeps exampleDto (exampleWorld [exampleRevision] [] [])) = Returns (Ok ())
   \<and> trace (snd (execute exampleDeps exampleDto (exampleWorld [exampleRevision] [] []))) =
       [CountByUserUuid Secondary ''u1'', Publish ''u1'' Verified Revisions 9]
   \<and> revisions (snd (execute exampleDeps exampleDto (exampleWorld [exampleRevision] [] []))) Primary
       = [exampleRevision]"
proof -
  have "secondRevisionsRepositorySet exampleDeps" "transitionStatusRepositorySet exampleDeps"
    "uuidIsValid exampleDeps (dto_userUuid exampleDto)"
    "length (ofUser (dto_userUuid exampleDto)
       (revisions (exampleWorld [exampleRevision] [] []) Secondary)) = 0"
    "calm 2 (script (exampleWorld [exampleRevision] [] []))"
    by (simp_all add: exampleDeps_def exampleDto_def exampleWorld_def ofUser_def calm_def)
  then show ?thesis
    using execute_short_circuit [of exampleDeps exampleDto "exampleWorld [exampleRevision] [] []"]
    by (simp add: exampleDto_def exampleWorld_def)
qed

subsection \<open>One revision of the paging migration\<close>

lemma find_SomeD: "find P xs = Some x \<Longrightarrow> P x"
  by (auto simp add: find_Some_iff)

lemma migrateRevision_newer:
  assumes "uuidIsValid d (rev_id r)" and "thrown (script w) = None"
    and "inPrimary r w = Some p" and "rev_updatedAt p > rev_updatedAt r"
  shows "migrateRevision d u r w =
     (Returns (), w\<lparr>trace := trace w @ [FindOneByUuid Primary (rev_id r) (rev_userUuid r)],
                     script := tl (script w)\<rparr>)"
  using assms
  by (simp add: migrateRevision_def inPrimary_def uuidGetValue_def findOneByUuid_def
      tryCatch_def andThen_def ret_def call_ok)

lemma migrateRevision_identical:
  assumes "uuidIsValid d (rev_id r)" and "thrown (script w) = None"
    and "inPrimary r w = Some p" and "\<not> rev_updatedAt p > rev_updatedAt r"
    and "isIdenticalTo d p r"
  shows "migrateRevision d u r w =
     (Returns (), w\<lparr>trace := trace w @ [FindOneByUuid Primary (rev_id r) (rev_userUuid r)],
                     script := tl (script w)\<rparr>)"
  using assms
  by (simp add: migrateRevision_def inPrimary_def uuidGetValue_def findOneByUuid_def
      tryCatch_def andThen_def ret_def call_ok)

lemma migrateRevision_replace:
  assumes "uuidIsValid d (rev_id r)" and "calm 3 (script w)"
    and "inPrimary r w = Some p" and "\<not> rev_updatedAt p > rev_updatedAt r"
    and "\<not> isIdenticalTo d p r"
  shows "migrateRevision d u r w =
     (Returns (),
      w\<lparr>revisions := (revisions w)
           (Primary := filter (\<lambda>x. \<not> (rev_id x = rev_id r \<and> rev_userUuid x = rev_userUuid r))
                         (revisions w Primary) @ [r]),
        trace := trace w @ [FindOneByUuid Primary (rev_id r) (rev_userUuid r),
                            RemoveOneByUuid Primary (rev_id r) (rev_userUuid r),
                            Sleep 2000, Insert Primary r True],
        script := drop 3 (script w)\<rparr>)"
proof -
  have c: "thrown (script w) = None" "thrown (tl (script w)) = None"
    "thrown (tl (tl (script w))) = None" "\<not> refused (tl (tl (script w)))"
    using assms(2) by (auto simp add: eval_nat_numeral dest!: calm_SucD)
  have p: "rev_id p = rev_id r" "rev_userUuid p = rev_userUuid r"
    using assms(3) by (auto simp add: inPrimary_def dest: find_SomeD)
  show ?thesis
    using assms(1,3,4,5) c p
    by (simp add: migrateRevision_def inPrimary_def uuidGetValue_def findOneByUuid_def
        removeOneByUuid_def insertRevision_def allowForPrimaryDatabaseToCatchUp_def sleep_def
        tryCatch_def andThen_def ret_def call_ok drop_Suc eval_nat_numeral)
qed

lemma migrateRevision_absent:
  assumes "uuidIsValid d (rev_id r)" and "calm 2 (script w)"
    and "inPrimary r w = None"
  shows "migrateRevision d u r w =
     (Returns (),
      w\<lparr>revisions := (revisions w)(Primary := revisions w Primary @ [r]),
        trace := trace w @ [FindOneByUuid Primary (rev_id r) (rev_userUuid r),
                            Insert Primary r True],
        script := drop 2 (script w)\<rparr>)"
proof -
  have c: "thrown (script w) = None" "thrown (tl (script w)) = None"
    "\<not> refused (tl (script w))"
    using assms(2) by (auto simp add: eval_nat_numeral dest!: calm_SucD)
  show ?thesis
    using assms(1,3) c
    by (simp add: migrateRevision_def inPrimary_def uuidGetValue_def findOneByUuid_def
        insertRevision_def tryCatch_def andThen_def ret_def call_ok drop_Suc eval_nat_numeral)
qed

lemma migrateRevision_four_cases:
  assumes "uuidIsValid d (rev_id r)" and "calm 3 (script w)"
  shows "case inPrimary r w of
           None \<Rightarrow>
             migrateRevision d u r w =
               (Returns (),
                w\<lparr>revisions := (revisions w)(Primary := revisions w Primary @ [r]),
                  trace := trace w @ [FindOneByUuid Primary (rev_id r) (rev_userUuid r),
                                      Insert Primary r True],
                  script := drop 2 (script w)\<rparr>)
         | Some p \<Rightarrow>
             if rev_updatedAt p > rev_updatedAt r \<or> isIdenticalTo d p r
             then migrateRevision d u r w =
               (Returns (),
                w\<lparr>trace := trace w @ [FindOneByUuid Primary (rev_id r) (rev_userUuid r)],
                  script := drop 1 (script w)\<rparr>)
             else migrateRevision d u r w =
               (Returns (),
                w\<lparr>revisions := (revisions w)
                     (Primary := filter (\<lambda>x. \<not> (rev_id x = rev_id r \<and> rev_userUuid x = rev_userUuid r))
                                   (revisions w Primary) @ [r]),
                  trace := trace w @ [FindOneByUuid Primary (rev_id r) (rev_userUuid r),
                                      RemoveOneByUuid Primary (rev_id r) (rev_userUuid r),
                                      Sleep 2000, Insert Primary r True],
                  script := drop 3 (script w)\<rparr>)"
proof (cases "inPrimary r w")
  case None
  have "calm 2 (script w)" using assms(2) by (rule calm_mono) simp
  then show ?thesis
    using None migrateRevision_absent [OF assms(1)] by simp
next
  case (Some p)
  have t: "thrown (script w) = None"
    using assms(2) by (auto simp add: eval_nat_numeral dest!: calm_SucD)
  show ?thesis
  proof (cases "rev_updatedAt p > rev_updatedAt r")
    case True
    then show ?thesis
      using Some migrateRevision_newer [OF assms(1) t Some] by (simp add: drop_Suc)
  next
    case newer: False
    show ?thesis
    proof (cases "isIdenticalTo d p r")
      case True
      then show ?thesis
        using Some newer migrateRevision_identical [OF assms(1) t Some] by (simp add: drop_Suc)
    next
      case False
      then show ?thesis
        using Some newer migrateRevision_replace [OF assms Some] by simp
    qed
  qed
qed

subsection \<open>The integrity check\<close>

lemma checkIntegrity_count_mismatch:
  assumes "calm 3 (script w)"
    and "length (ofUser u (revisions w Primary)) < length (ofUser u (revisions w Secondary))"
  shows "checkIntegrityBetweenPrimaryAndSecondaryDatabase d u w =
     (Returns (Fail (CountMismatch u (length (ofUser u (revisions w Primary)))
                       (length (ofUser u (revisions w Secondary))))),
      w\<lparr>trace := trace w @ [GetIntegrityProgress u, CountByUserUuid Secondary u,
                              CountByUserUuid Primary u],
        script := drop 3 (script w)\<rparr>)"
proof -
  have c: "thrown (script w) = None" "thrown (tl (script w)) = None"
    "thrown (tl (tl (script w))) = None"
    using assms(1) by (auto simp add: eval_nat_numeral dest!: calm_SucD)
  show ?thesis
    using assms(2) c
    by (simp add: checkIntegrityBetweenPrimaryAndSecondaryDatabase_def getIntegrityProgress_def
        countByUserUuid_def tryCatch_def andThen_def ret_def call_ok drop_Suc eval_nat_numeral)
qed

lemma checkRevisions_step:
  assumes "uuidIsValid d (rev_id r)" and "thrown (script w) = None"
  shows "checkRevisions d u (r # rest) w =
     (let w1 = w\<lparr>trace := trace w @ [FindOneByUuid Primary (rev_id r) u],
                  script := tl (script w)\<rparr>
      in case find (\<lambda>x. rev_id x = rev_id r \<and> rev_userUuid x = u) (revisions w Primary) of
           None \<Rightarrow> (Returns (Fail (NotFoundInPrimary (rev_id r))), w1)
         | Some p \<Rightarrow>
             if rev_updatedAt p > rev_updatedAt r then checkRevisions d u rest w1
             else if isIdenticalTo d r p then checkRevisions d u rest w1
             else (Returns (Fail (NotIdentical (rev_id r) p r)), w1))"
  using assms
  by (simp add: checkRevision_def findOneByUuid_def andThen_def ret_def call_ok Let_def
      split: option.splits)

lemma checkPage_fetches:
  assumes "calm 2 (script w)" and "1 \<le> p"
  shows "checkPage d u p w =
     checkRevisions d u
       (take (pageSize d) (drop ((p - 1) * pageSize d) (ofUser u (revisions w Secondary))))
       (w\<lparr>integrityProgress := (integrityProgress w)(u \<mapsto> p),
          trace := trace w @ [SetIntegrityProgress u p,
                              FindByUserUuid Secondary u ((int p - 1) * int (pageSize d)) (pageSize d)],
          script := drop 2 (script w)\<rparr>)"
proof -
  have c: "thrown (script w) = None" "thrown (tl (script w)) = None"
    using assms(1) by (auto simp add: eval_nat_numeral dest!: calm_SucD)
  have n: "nat ((int p - 1) * int (pageSize d)) = (p - 1) * pageSize d"
    using assms(2) by (simp add: nat_mult_distrib nat_diff_distrib')
  have o: "\<not> (int p - 1) * int (pageSize d) < 0"
    using assms(2) by (simp add: mult_less_0_iff)
  show ?thesis
    using c n o
    by (simp add: checkPage_def setIntegrityProgress_def findByUserUuid_def andThen_def
        call_ok drop_Suc eval_nat_numeral)
qed

lemma checkIntegrity_pages:
  assumes "calm 3 (script w)" and "0 < pageSize d"
    and "\<not> length (ofUser u (revisions w Primary)) < length (ofUser u (revisions w Secondary))"
  shows "checkIntegrityBetweenPrimaryAndSecondaryDatabase d u w =
     tryCatch
       (checkPagesLoop d u
          ((length (ofUser u (revisions w Primary)) + pageSize d - 1) div pageSize d + 1
             - (case integrityProgress w u of None \<Rightarrow> 1 | Some p \<Rightarrow> p))
          (case integrityProgress w u of None \<Rightarrow> 1 | Some p \<Rightarrow> p))
       (\<lambda>msg. ret (Fail (ErroredWhenCheckingIntegrity msg)))
       (w\<lparr>trace := trace w @ [GetIntegrityProgress u, CountByUserUuid Secondary u,
                               CountByUserUuid Primary u],
          script := drop 3 (script w)\<rparr>)"
proof -
  have c: "thrown (script w) = None" "thrown (tl (script w)) = None"
    "thrown (tl (tl (script w))) = None"
    using assms(1) by (auto simp add: eval_nat_numeral dest!: calm_SucD)
  show ?thesis
    using assms(2,3) c
    by (simp add: checkIntegrityBetweenPrimaryAndSecondaryDatabase_def getIntegrityProgress_def
        countByUserUuid_def checkPages_def mathCeilDiv_def tryCatch_def andThen_def ret_def
        call_ok drop_Suc eval_nat_numeral)
qed

subsection \<open>An integrity failure resets the progress\<close>

text \<open>
  C6. In a run of execute that reaches the integrity check and whose integrity check
  fails with error \<open>e\<close>: when the three calls that follow succeed, execute sets the
  paging progress to 1, then the integrity progress to 1, then publishes Failed, and
  returns the failure \<open>e\<close>; when the publish throws after the two writes, both
  counters are 1 in the world that is left.
\<close>

theorem integrity_failure_resets:
  assumes "secondRevisionsRepositorySet d" and "transitionStatusRepositorySet d"
    and "uuidIsValid d (dto_userUuid dto)"
    and "isAlreadyMigrated (dto_userUuid dto) w = (Returns False, w1)"
    and "updateTransitionStatus (dto_userUuid dto) InProgress (dto_timestamp dto) w1 = (Returns (), w2)"
    and "migrateRevisionsForUser d (dto_userUuid dto) (dto_timestamp dto) w2 = (Returns (Ok ()), w3)"
    and "checkIntegrityBetweenPrimaryAndSecondaryDatabase d (dto_userUuid dto)
           (w3\<lparr>trace := trace w3 @ [Sleep 2000]\<rparr>) = (Returns (Fail e), w4)"
  shows "(calm 3 (script w4) \<longrightarrow>
          execute d dto w =
            (Returns (Fail e),
             w4\<lparr>pagingProgress := (pagingProgress w4)(dto_userUuid dto \<mapsto> 1),
                integrityProgress := (integrityProgress w4)(dto_userUuid dto \<mapsto> 1),
                trace := trace w4 @ [SetPagingProgress (dto_userUuid dto) 1,
                                     SetIntegrityProgress (dto_userUuid dto) 1,
                                     Publish (dto_userUuid dto) Failed Revisions (dto_timestamp dto)],
                script := drop 3 (script w4)\<rparr>))
       \<and> (calm 2 (script w4) \<and> thrown (drop 2 (script w4)) = Some msg \<longrightarrow>
          execute d dto w =
            (Throws msg,
             w4\<lparr>pagingProgress := (pagingProgress w4)(dto_userUuid dto \<mapsto> 1),
                integrityProgress := (integrityProgress w4)(dto_userUuid dto \<mapsto> 1),
                trace := trace w4 @ [SetPagingProgress (dto_userUuid dto) 1,
                                     SetIntegrityProgress (dto_userUuid dto) 1,
                                     Rejected (Publish (dto_userUuid dto) Failed Revisions
                                                 (dto_timestamp dto)) msg],
                script := drop 3 (script w4)\<rparr>))"
proof (intro conjI impI)
  assume "calm 3 (script w4)"
  then have c: "thrown (script w4) = None" "thrown (tl (script w4)) = None"
    "thrown (tl (tl (script w4))) = None"
    by (auto simp add: eval_nat_numeral dest!: calm_SucD)
  show "execute d dto w =
            (Returns (Fail e),
             w4\<lparr>pagingProgress := (pagingProgress w4)(dto_userUuid dto \<mapsto> 1),
                integrityProgress := (integrityProgress w4)(dto_userUuid dto \<mapsto> 1),
                trace := trace w4 @ [SetPagingProgress (dto_userUuid dto) 1,
                                     SetIntegrityProgress (dto_userUuid dto) 1,
                                     Publish (dto_userUuid dto) Failed Revisions (dto_timestamp dto)],
                script := drop 3 (script w4)\<rparr>)"
    using assms c
    by (simp add: execute_def andThen_def ret_def Let_def allowForPrimaryDatabaseToCatchUp_def
        sleep_def setPagingProgress_def setIntegrityProgress_def updateTransitionStatus_def
        call_ok drop_Suc eval_nat_numeral)
next
  assume "calm 2 (script w4) \<and> thrown (drop 2 (script w4)) = Some msg"
  then have c: "thrown (script w4) = None" "thrown (tl (script w4)) = None"
    "thrown (tl (tl (script w4))) = Some msg"
    by (auto simp add: eval_nat_numeral drop_Suc dest!: calm_SucD)
  show "execute d dto w =
            (Throws msg,
             w4\<lparr>pagingProgress := (pagingProgress w4)(dto_userUuid dto \<mapsto> 1),
                integrityProgress := (integrityProgress w4)(dto_userUuid dto \<mapsto> 1),
                trace := trace w4 @ [SetPagingProgress (dto_userUuid dto) 1,
                                     SetIntegrityProgress (dto_userUuid dto) 1,
                                     Rejected (Publish (dto_userUuid dto) Failed Revisions
                                                 (dto_timestamp dto)) msg],
                script := drop 3 (script w4)\<rparr>)"
    using assms c
    by (simp add: execute_def andThen_def ret_def Let_def allowForPrimaryDatabaseToCatchUp_def
        sleep_def setPagingProgress_def setIntegrityProgress_def updateTransitionStatus_def
        call_ok call_thrown drop_Suc eval_nat_numeral)
qed


theorem integrity_failure_resets_witness:
  "fst (execute exampleDeps exampleDto
          (exampleWorld [] [exampleRevision] (replicate 8 NoFault @ [Refuse])))
     = Returns (Fail (CountMismatch ''u1'' 0 1))
   \<and> pagingProgress (snd (execute exampleDeps exampleDto
          (exampleWorld [] [exampleRevision] (replicate 8 NoFault @ [Refuse])))) ''u1'' = Some 1
   \<and> integrityProgress (snd (execute exampleDeps exampleDto
          (exampleWorld [] [exampleRevision] (replicate 8 NoFault @ [Refuse])))) ''u1'' = Some 1
   \<and> published (trace (snd (execute exampleDeps exampleDto
          (exampleWorld [] [exampleRevision] (replicate 8 NoFault @ [Refuse])))))
       = [InProgress, InProgress, Failed]
   \<and> fst (execute exampleDeps exampleDto
          (exampleWorld [] [exampleRevision]
             (replicate 8 NoFault @ [Refuse] @ replicate 5 NoFault @ [Throw ''crash''])))
     = Throws ''crash''
   \<and> pagingProgress (snd (execute exampleDeps exampleDto
          (exampleWorld [] [exampleRevision]
             (replicate 8 NoFault @ [Refuse] @ replicate 5 NoFault @ [Throw ''crash'']))))
        ''u1'' = Some 1
   \<and> integrityProgress (snd (execute exampleDeps exampleDto
          (exampleWorld [] [exampleRevision]
             (replicate 8 NoFault @ [Refuse] @ replicate 5 NoFault @ [Throw ''crash'']))))
        ''u1'' = Some 1"
proof -
  have c: "secondRevisionsRepositorySet exampleDeps" "transitionStatusRepositorySet exampleDeps"
    "uuidIsValid exampleDeps (dto_userUuid exampleDto)"
    by (simp_all add: exampleDeps_def exampleDto_def)
  have returned:
    "fst (execute exampleDeps exampleDto
          (exampleWorld [] [exampleRevision] (replicate 8 NoFault @ [Refuse])))
     = Returns (Fail (CountMismatch ''u1'' 0 1))
   \<and> pagingProgress (snd (execute exampleDeps exampleDto
          (exampleWorld [] [exampleRevision] (replicate 8 NoFault @ [Refuse])))) ''u1'' = Some 1
   \<and> integrityProgress (snd (execute exampleDeps exampleDto
          (exampleWorld [] [exampleRevision] (replicate 8 NoFault @ [Refuse])))) ''u1'' = Some 1
   \<and> published (trace (snd (execute exampleDeps exampleDto
          (exampleWorld [] [exampleRevision] (replicate 8 NoFault @ [Refuse])))))
       = [InProgress, InProgress, Failed]"
  proof -
    let ?w = "exampleWorld [] [exampleRevision] (replicate 8 NoFault @ [Refuse])"
    let ?w1 = "snd (isAlreadyMigrated ''u1'' ?w)"
    let ?w2 = "snd (updateTransitionStatus ''u1'' InProgress 9 ?w1)"
    let ?w3 = "snd (migrateRevisionsForUser exampleDeps ''u1'' 9 ?w2)"
    let ?w4 = "snd (checkIntegrityBetweenPrimaryAndSecondaryDatabase exampleDeps ''u1''
                  (?w3\<lparr>trace := trace ?w3 @ [Sleep 2000]\<rparr>))"
    have "fst (isAlreadyMigrated ''u1'' ?w) = Returns False"
      by code_simp
    then have 1: "isAlreadyMigrated (dto_userUuid exampleDto) ?w = (Returns False, ?w1)"
      by (simp add: exampleDto_def prod_eq_iff)
    have "fst (updateTransitionStatus ''u1'' InProgress 9 ?w1) = Returns ()"
      by code_simp
    then have 2: "updateTransitionStatus (dto_userUuid exampleDto) InProgress
                    (dto_timestamp exampleDto) ?w1 = (Returns (), ?w2)"
      by (simp add: exampleDto_def prod_eq_iff)
    have "fst (migrateRevisionsForUser exampleDeps ''u1'' 9 ?w2) = Returns (Ok ())"
      by code_simp
    then have 3: "migrateRevisionsForUser exampleDeps (dto_userUuid exampleDto)
                    (dto_timestamp exampleDto) ?w2 = (Returns (Ok ()), ?w3)"
      by (simp add: exampleDto_def prod_eq_iff)
    have "fst (checkIntegrityBetweenPrimaryAndSecondaryDatabase exampleDeps ''u1''
                  (?w3\<lparr>trace := trace ?w3 @ [Sleep 2000]\<rparr>))
          = Returns (Fail (CountMismatch ''u1'' 0 1))"
      by code_simp
    then have 4: "checkIntegrityBetweenPrimaryAndSecondaryDatabase exampleDeps
                    (dto_userUuid exampleDto) (?w3\<lparr>trace := trace ?w3 @ [Sleep 2000]\<rparr>)
                  = (Returns (Fail (CountMismatch ''u1'' 0 1)), ?w4)"
      by (simp add: exampleDto_def prod_eq_iff)
    have 5: "calm 3 (script ?w4)"
      by code_simp
    have 6: "published (trace ?w4) = [InProgress, InProgress]"
      by code_simp
    show ?thesis
      using integrity_failure_resets [OF c 1 2 3 4, THEN conjunct1] 5 6
      by (simp add: exampleDto_def published_def)
  qed
  have crashed:
    "fst (execute exampleDeps exampleDto
          (exampleWorld [] [exampleRevision]
             (replicate 8 NoFault @ [Refuse] @ replicate 5 NoFault @ [Throw ''crash''])))
     = Throws ''crash''
   \<and> pagingProgress (snd (execute exampleDeps exampleDto
          (exampleWorld [] [exampleRevision]
             (replicate 8 NoFault @ [Refuse] @ replicate 5 NoFault @ [Throw ''crash'']))))
        ''u1'' = Some 1
   \<and> integrityProgress (snd (execute exampleDeps exampleDto
          (exampleWorld [] [exampleRevision]
             (replicate 8 NoFault @ [Refuse] @ replicate 5 NoFault @ [Throw ''crash'']))))
        ''u1'' = Some 1"
  proof -
    let ?w = "exampleWorld [] [exampleRevision]
                (replicate 8 NoFault @ [Refuse] @ replicate 5 NoFault @ [Throw ''crash''])"
    let ?w1 = "snd (isAlreadyMigrated ''u1'' ?w)"
    let ?w2 = "snd (updateTransitionStatus ''u1'' InProgress 9 ?w1)"
    let ?w3 = "snd (migrateRevisionsForUser exampleDeps ''u1'' 9 ?w2)"
    let ?w4 = "snd (checkIntegrityBetweenPrimaryAndSecondaryDatabase exampleDeps ''u1''
                  (?w3\<lparr>trace := trace ?w3 @ [Sleep 2000]\<rparr>))"
    have "fst (isAlreadyMigrated ''u1'' ?w) = Returns False"
      by code_simp
    then have 1: "isAlreadyMigrated (dto_userUuid exampleDto) ?w = (Returns False, ?w1)"
      by (simp add: exampleDto_def prod_eq_iff)
    have "fst (updateTransitionStatus ''u1'' InProgress 9 ?w1) = Returns ()"
      by code_simp
    then have 2: "updateTransitionStatus (dto_userUuid exampleDto) InProgress
                    (dto_timestamp exampleDto) ?w1 = (Returns (), ?w2)"
      by (simp add: exampleDto_def prod_eq_iff)
    have "fst (migrateRevisionsForUser exampleDeps ''u1'' 9 ?w2) = Returns (Ok ())"
      by code_simp
    then have 3: "migrateRevisionsForUser exampleDeps (dto_userUuid exampleDto)
                    (dto_timestamp exampleDto) ?w2 = (Returns (Ok ()), ?w3)"
      by (simp add: exampleDto_def prod_eq_iff)
    have "fst (checkIntegrityBetweenPrimaryAndSecondaryDatabase exampleDeps ''u1''
                  (?w3\<lparr>trace := trace ?w3 @ [Sleep 2000]\<rparr>))
          = Returns (Fail (CountMismatch ''u1'' 0 1))"
      by code_simp
    then have 4: "checkIntegrityBetweenPrimaryAndSecondaryDatabase exampleDeps
                    (dto_userUuid exampleDto) (?w3\<lparr>trace := trace ?w3 @ [Sleep 2000]\<rparr>)
                  = (Returns (Fail (CountMismatch ''u1'' 0 1)), ?w4)"
      by (simp add: exampleDto_def prod_eq_iff)
    have 5: "calm 2 (script ?w4)"
      by code_simp
    have 6: "thrown (drop 2 (script ?w4)) = Some ''crash''"
      by code_simp
    show ?thesis
      using integrity_failure_resets [OF c 1 2 3 4, THEN conjunct2, of "''crash''"] 5 6
      by (simp add: exampleDto_def)
  qed
  show ?thesis using returned crashed by simp
qed

subsection \<open>An insert that returns false\<close>

lemma noThrow_thrown: "noThrow fs \<Longrightarrow> thrown fs = None"
  by (cases fs rule: thrown.cases) (simp_all add: noThrow_def)

lemma noThrow_suffix: "noThrow fs \<Longrightarrow> suffix gs fs \<Longrightarrow> noThrow gs"
  by (auto simp add: noThrow_def list_all_iff dest: set_mono_suffix)

lemma neverDiverges_andThen:
  "neverDiverges m \<Longrightarrow> (\<And>x. neverDiverges (f x)) \<Longrightarrow> neverDiverges (andThen m f)"
  unfolding neverDiverges_def
proof
  fix w
  assume 1: "\<forall>w. fst (m w) \<noteq> Diverges" and 2: "\<And>x. \<forall>w. fst (f x w) \<noteq> Diverges"
  obtain r w' where m: "m w = (r, w')" by (cases "m w")
  show "fst (andThen m f w) \<noteq> Diverges"
    using 1 [rule_format, of w] 2 [rule_format, of _ w'] m
    by (cases r) (simp_all add: andThen_def)
qed

lemma neverDiverges_call: "neverDiverges (call e act)"
  by (simp add: neverDiverges_def call_def split: option.splits prod.splits)

lemma neverDiverges_prims:
  "neverDiverges (findOneByUuid r i u)"
  "neverDiverges (removeOneByUuid r i u)"
  "neverDiverges (insertRevision r revision)"
  "neverDiverges (logError m)"
  "neverDiverges (sleep ms)"
  "neverDiverges (uuidGetValue d s)"
  "neverDiverges (ret x)"
  by (simp_all add: findOneByUuid_def removeOneByUuid_def neverDiverges_call)
    (simp_all add: neverDiverges_def insertRevision_def logError_def sleep_def uuidGetValue_def
      ret_def throw_def call_def split: option.splits prod.splits)

lemma migrateRevision_returns: "fst (migrateRevision d u r w) = Returns ()"
proof -
  let ?body = "andThen (uuidGetValue d (rev_id r)) (\<lambda>revisionUuid.
        andThen (findOneByUuid Primary revisionUuid (rev_userUuid r)) (\<lambda>revisionInPrimary.
        andThen
          (case revisionInPrimary of
             None \<Rightarrow> ret True
           | Some p \<Rightarrow>
               if rev_updatedAt p > rev_updatedAt r then ret False
               else if isIdenticalTo d p r then ret False
               else
                 andThen (uuidGetValue d (rev_id p)) (\<lambda>primaryUuid.
                 andThen (removeOneByUuid Primary primaryUuid (rev_userUuid p)) (\<lambda>_.
                 andThen allowForPrimaryDatabaseToCatchUp (\<lambda>_. ret True))))
          (\<lambda>proceed.
             if proceed
             then andThen (insertRevision Primary r) (\<lambda>didSave.
                    if \<not> didSave then logError (FailedToSaveRevision (rev_id r))
                    else ret ())
             else ret ())))"
  have "neverDiverges ?body"
    unfolding allowForPrimaryDatabaseToCatchUp_def
    by (intro neverDiverges_andThen neverDiverges_prims)
      (auto split: option.splits intro!: neverDiverges_andThen neverDiverges_prims)
  then have "fst (?body w) \<noteq> Diverges"
    by (simp add: neverDiverges_def)
  then show ?thesis
    unfolding migrateRevision_def
    by (cases "?body w"; cases "fst (?body w)")
      (simp_all add: tryCatch_def logError_def)
qed


text \<open>The loop goes on with the remaining revisions whatever happened to the first one.\<close>

lemma migrateRevisions_continues:
  "migrateRevisions d u (r # rest) w = migrateRevisions d u rest (snd (migrateRevision d u r w))"
  using migrateRevision_returns [of d u r w]
  by (cases "migrateRevision d u r w") (simp add: andThen_def)


















subsection \<open>The paging migration as a whole\<close>

lemma faultFree_suffix: "faultFree fs \<Longrightarrow> suffix gs fs \<Longrightarrow> faultFree gs"
  by (auto simp add: faultFree_def list_all_iff dest: set_mono_suffix)

lemma faultFree_calm: "faultFree fs \<Longrightarrow> calm n fs"
  by (auto simp add: faultFree_def calm_def list_all_iff dest: in_set_takeD)

lemma faultFree_noThrow: "faultFree fs \<Longrightarrow> noThrow fs"
  by (auto simp add: faultFree_def noThrow_def list_all_iff)

lemma settlesI:
  "m w = (Returns x, w') \<Longrightarrow> revisions w' = (revisions w)(Primary := primary)
   \<Longrightarrow> suffix (script w') (script w) \<Longrightarrow> settles m w x primary"
  by (simp add: settles_def)

lemma settles_andThen:
  assumes "settles m w x p1" and "settles (f x) (snd (m w)) y p2"
  shows "settles (andThen m f) w y p2"
proof -
  obtain w1 where m: "m w = (Returns x, w1)"
    using assms(1) by (cases "m w") (simp add: settles_def)
  show ?thesis
    using assms m by (auto simp add: settles_def andThen_def intro: suffix_order.trans)
qed

lemma settles_call:
  assumes "thrown (script w) = None" and "revisions (snd (act w)) = revisions w"
    and "script (snd (act w)) = script w"
  shows "settles (call e act) w (fst (act w)) (revisions w Primary)"
  using assms by (simp add: settles_def call_ok suffix_tl)

lemma settles_ret: "settles (ret x) w x (revisions w Primary)"
  by (simp add: settles_def ret_def)

lemma migrateRevision_invalid:
  assumes "\<not> uuidIsValid d (rev_id r)"
  shows "migrateRevision d u r w =
     (Returns (),
      w\<lparr>trace := trace w @ [LogError (ErroredWhenSavingRevision (rev_id r)
          (''Cannot get value of an unsuccessfull result: Given value is not a valid uuid: ''
             @ rev_id r))]\<rparr>)"
  using assms
  by (simp add: migrateRevision_def uuidGetValue_def tryCatch_def andThen_def throw_def
      logError_def)

lemma settles_migrateRevision:
  assumes "faultFree (script w)"
  shows "settles (migrateRevision d u r) w () (expectedPrimary d (revisions w Primary) r)"
proof (cases "uuidIsValid d (rev_id r)")
  case False
  then show ?thesis
    using migrateRevision_invalid [of d r u w]
    by (simp add: settles_def expectedPrimary_def)
next
  case valid: True
  have c3: "calm 3 (script w)" and c2: "calm 2 (script w)"
    using assms by (simp_all add: faultFree_calm)
  have t: "thrown (script w) = None"
    using assms by (simp add: faultFree_noThrow noThrow_thrown)
  show ?thesis
  proof (cases "inPrimary r w")
    case None
    then show ?thesis
      using valid migrateRevision_absent [OF valid c2 None, of u]
      by (simp add: settles_def expectedPrimary_def inPrimary_def suffix_drop)
  next
    case (Some p)
    show ?thesis
    proof (cases "rev_updatedAt p > rev_updatedAt r")
      case True
      then show ?thesis
        using valid Some migrateRevision_newer [OF valid t Some True, of u]
        by (simp add: settles_def expectedPrimary_def inPrimary_def suffix_tl)
    next
      case newer: False
      show ?thesis
      proof (cases "isIdenticalTo d p r")
        case True
        then show ?thesis
          using valid Some newer migrateRevision_identical [OF valid t Some newer True, of u]
          by (simp add: settles_def expectedPrimary_def inPrimary_def suffix_tl)
      next
        case False
        then show ?thesis
          using valid Some newer migrateRevision_replace [OF valid c3 Some newer False, of u]
          by (simp add: settles_def expectedPrimary_def inPrimary_def suffix_drop)
      qed
    qed
  qed
qed

lemma settles_migrateRevisions:
  "faultFree (script w) \<Longrightarrow>
   settles (migrateRevisions d u rs) w () (foldl (expectedPrimary d) (revisions w Primary) rs)"
proof (induction rs arbitrary: w)
  case Nil
  show ?case by (simp add: settles_ret)
next
  case (Cons r rs)
  let ?w1 = "snd (migrateRevision d u r w)"
  have 1: "settles (migrateRevision d u r) w () (expectedPrimary d (revisions w Primary) r)"
    using Cons.prems by (rule settles_migrateRevision)
  then have "faultFree (script ?w1)"
    and p: "revisions ?w1 Primary = expectedPrimary d (revisions w Primary) r"
    using Cons.prems by (auto simp add: settles_def intro: faultFree_suffix)
  then have "settles (migrateRevisions d u rs) ?w1 ()
      (foldl (expectedPrimary d) (revisions ?w1 Primary) rs)"
    by (intro Cons.IH)
  then show ?case
    using 1 p by (auto intro: settles_andThen)
qed

lemma settles_after:
  assumes "settles m w x (revisions w Primary)"
    and "\<And>w1. revisions w1 = revisions w \<Longrightarrow> suffix (script w1) (script w)
           \<Longrightarrow> settles (f x) w1 y p"
  shows "settles (andThen m f) w y p"
proof -
  have "revisions (snd (m w)) = revisions w" "suffix (script (snd (m w))) (script w)"
    using assms(1) by (simp_all add: settles_def)
  then have "settles (f x) (snd (m w)) y p"
    by (rule assms(2))
  with assms(1) show ?thesis by (rule settles_andThen)
qed

lemma settles_tryCatch: "settles m w x p \<Longrightarrow> settles (tryCatch m h) w x p"
  by (cases "m w") (auto simp add: settles_def tryCatch_def)

lemma settles_prims:
  assumes "thrown (script w) = None"
  shows "settles (setPagingProgress u p) w () (revisions w Primary)"
    and "settles (setIntegrityProgress u p) w () (revisions w Primary)"
    and "settles (updateTransitionStatus u st ts) w () (revisions w Primary)"
    and "0 \<le> offset \<Longrightarrow>
         settles (findByUserUuid r u offset limit) w
           (take limit (drop (nat offset) (ofUser u (revisions w r)))) (revisions w Primary)"
    and "settles (countByUserUuid r u) w (length (ofUser u (revisions w r))) (revisions w Primary)"
    and "settles (getPagingProgress u) w (case pagingProgress w u of None \<Rightarrow> 1 | Some p \<Rightarrow> p)
           (revisions w Primary)"
    and "settles (getIntegrityProgress u) w (case integrityProgress w u of None \<Rightarrow> 1 | Some p \<Rightarrow> p)
           (revisions w Primary)"
  using assms
  by (simp_all add: setPagingProgress_def setIntegrityProgress_def updateTransitionStatus_def
      findByUserUuid_def countByUserUuid_def getPagingProgress_def getIntegrityProgress_def
      settles_def call_ok)

lemma page_offset:
  assumes "1 \<le> p"
  shows "0 \<le> (int p - 1) * int k" and "nat ((int p - 1) * int k) = (p - 1) * k"
  using assms by (simp_all add: nat_mult_distrib nat_diff_distrib')

lemma pages_take: "1 \<le> p \<Longrightarrow>
  take k (drop ((p - 1) * k) xs) @ take (n * k) (drop (p * k) xs)
    = take (Suc n * k) (drop ((p - 1) * k) xs)"
  using take_drop_page [of k "(p - 1) * k" xs "n * k"]
  by (cases p) (simp_all add: add.commute)

lemma ceil_pages: "0 < k \<Longrightarrow> n \<le> ((n + k - 1) div k) * (k :: nat)"
  using dividend_less_div_times [of k "n + k - 1"] by simp

lemma pages_cover:
  assumes "0 < k" and "1 \<le> p" and "length xs \<le> m"
  shows "take (((m + k - 1) div k + 1 - p) * k) (drop ((p - 1) * k) xs) = drop ((p - 1) * k) xs"
proof -
  let ?t = "(m + k - 1) div k"
  have t: "m \<le> ?t * k" using assms(1) by (rule ceil_pages)
  have "length xs - (p - 1) * k \<le> (?t + 1 - p) * k"
  proof (cases "p - 1 \<le> ?t")
    case True
    then have e: "(?t + 1 - p) * k = ?t * k - (p - 1) * k"
      using assms(2) by (simp add: diff_mult_distrib)
    have "length xs \<le> ?t * k" using t assms(3) by simp
    then have "length xs - (p - 1) * k \<le> ?t * k - (p - 1) * k" by (rule diff_le_mono)
    then show ?thesis using e by simp
  next
    case False
    then have "Suc ?t \<le> p - 1" by simp
    then have "Suc ?t * k \<le> (p - 1) * k" by (rule mult_le_mono1)
    then show ?thesis using t assms(3) by simp
  qed
  then show ?thesis by simp
qed

lemma migratePage_fetches:
  assumes "calm 3 (script w)" and "1 \<le> p"
  shows "migratePage d u ts tp p w =
     migrateRevisions d u
       (take (pageSize d) (drop ((p - 1) * pageSize d) (ofUser u (revisions w Secondary))))
       (w\<lparr>pagingProgress := (pagingProgress w)(u \<mapsto> p),
          trace := trace w
            @ (if isPageInEvery10Percent p tp then [Publish u InProgress Revisions ts] else [])
            @ [SetPagingProgress u p,
               FindByUserUuid Secondary u ((int p - 1) * int (pageSize d)) (pageSize d)],
          script := drop (if isPageInEvery10Percent p tp then 3 else 2) (script w)\<rparr>)"
proof -
  have c: "thrown (script w) = None" "thrown (tl (script w)) = None"
    "thrown (tl (tl (script w))) = None"
    using assms(1) by (auto simp add: eval_nat_numeral dest!: calm_SucD)
  show ?thesis
    using c page_offset [OF assms(2), of "pageSize d"]
    by (simp add: migratePage_def updateTransitionStatus_def setPagingProgress_def
        findByUserUuid_def andThen_def ret_def call_ok drop_Suc eval_nat_numeral)
qed

lemma settles_migratePage:
  assumes "faultFree (script w)" and "1 \<le> p"
  shows "settles (migratePage d u ts tp p) w ()
     (foldl (expectedPrimary d) (revisions w Primary)
        (take (pageSize d) (drop ((p - 1) * pageSize d) (ofUser u (revisions w Secondary)))))"
proof -
  let ?w2 = "w\<lparr>pagingProgress := (pagingProgress w)(u \<mapsto> p),
          trace := trace w
            @ (if isPageInEvery10Percent p tp then [Publish u InProgress Revisions ts] else [])
            @ [SetPagingProgress u p,
               FindByUserUuid Secondary u ((int p - 1) * int (pageSize d)) (pageSize d)],
          script := drop (if isPageInEvery10Percent p tp then 3 else 2) (script w)\<rparr>"
  have s: "suffix (script ?w2) (script w)" by (simp add: suffix_drop)
  then have "faultFree (script ?w2)" using assms(1) by (rule faultFree_suffix [rotated])
  then have "settles (migrateRevisions d u
       (take (pageSize d) (drop ((p - 1) * pageSize d) (ofUser u (revisions w Secondary))))) ?w2 ()
     (foldl (expectedPrimary d) (revisions ?w2 Primary)
        (take (pageSize d) (drop ((p - 1) * pageSize d) (ofUser u (revisions w Secondary)))))"
    by (rule settles_migrateRevisions)
  moreover have "calm 3 (script w)" using assms(1) by (rule faultFree_calm)
  ultimately show ?thesis
    using s migratePage_fetches [of w p d u ts tp] assms(2)
    by (auto simp add: settles_def intro: suffix_order.trans)
qed

lemma settles_migratePagesLoop:
  "faultFree (script w) \<Longrightarrow> 1 \<le> p \<Longrightarrow>
   settles (migratePagesLoop d u ts tp n p) w ()
     (foldl (expectedPrimary d) (revisions w Primary)
        (take (n * pageSize d) (drop ((p - 1) * pageSize d) (ofUser u (revisions w Secondary)))))"
proof (induction n arbitrary: w p)
  case 0
  show ?case by (simp add: settles_ret)
next
  case (Suc n)
  let ?sec = "ofUser u (revisions w Secondary)"
  let ?page = "take (pageSize d) (drop ((p - 1) * pageSize d) ?sec)"
  let ?w1 = "snd (migratePage d u ts tp p w)"
  have 1: "settles (migratePage d u ts tp p) w () (foldl (expectedPrimary d) (revisions w Primary) ?page)"
    using Suc.prems by (rule settles_migratePage)
  then have f: "faultFree (script ?w1)"
    and r: "revisions ?w1 Primary = foldl (expectedPrimary d) (revisions w Primary) ?page"
      "revisions ?w1 Secondary = revisions w Secondary"
    using Suc.prems(1) by (auto simp add: settles_def intro: faultFree_suffix)
  have "settles (migratePagesLoop d u ts tp n (p + 1)) ?w1 ()
     (foldl (expectedPrimary d) (revisions ?w1 Primary)
        (take (n * pageSize d) (drop ((p + 1 - 1) * pageSize d) (ofUser u (revisions ?w1 Secondary)))))"
    using f by (rule Suc.IH) simp
  then have "settles (migratePagesLoop d u ts tp n (p + 1)) ?w1 ()
     (foldl (expectedPrimary d) (revisions w Primary)
        (take (Suc n * pageSize d) (drop ((p - 1) * pageSize d) ?sec)))"
    using r pages_take [OF Suc.prems(2), of "pageSize d" ?sec n, symmetric]
    by (simp del: mult_Suc)
  with 1 show ?case
    by (simp del: mult_Suc) (rule settles_andThen)
qed

lemma migrateRevisionsForUser_pages:
  assumes "calm 2 (script w)" and "0 < pageSize d"
  shows "migrateRevisionsForUser d u ts w =
     tryCatch
       (andThen
          (migratePagesLoop d u ts
             (Pages ((length (ofUser u (revisions w Secondary)) + pageSize d - 1) div pageSize d))
             ((length (ofUser u (revisions w Secondary)) + pageSize d - 1) div pageSize d + 1
                - (case pagingProgress w u of None \<Rightarrow> 1 | Some p \<Rightarrow> p))
             (case pagingProgress w u of None \<Rightarrow> 1 | Some p \<Rightarrow> p))
          (\<lambda>_. ret (Ok ())))
       (\<lambda>msg. ret (Fail (ErroredWhenMigrating u msg)))
       (w\<lparr>trace := trace w @ [GetPagingProgress u, CountByUserUuid Secondary u],
          script := drop 2 (script w)\<rparr>)"
proof -
  have c: "thrown (script w) = None" "thrown (tl (script w)) = None"
    using assms(1) by (auto simp add: eval_nat_numeral dest!: calm_SucD)
  show ?thesis
    using assms(2) c
    by (simp add: migrateRevisionsForUser_def getPagingProgress_def countByUserUuid_def
        migratePages_def mathCeilDiv_def tryCatch_def andThen_def ret_def call_ok drop_Suc
        eval_nat_numeral)
qed

lemma settles_migrateRevisionsForUser:
  assumes "faultFree (script w)" and "0 < pageSize d"
    and "1 \<le> (case pagingProgress w u of None \<Rightarrow> 1 | Some p \<Rightarrow> p)"
  shows "settles (migrateRevisionsForUser d u ts) w (Ok ())
     (foldl (expectedPrimary d) (revisions w Primary)
        (drop (((case pagingProgress w u of None \<Rightarrow> 1 | Some p \<Rightarrow> p) - 1) * pageSize d)
           (ofUser u (revisions w Secondary))))"
proof -
  let ?p = "case pagingProgress w u of None \<Rightarrow> 1 | Some p \<Rightarrow> p"
  let ?sec = "ofUser u (revisions w Secondary)"
  let ?t = "(length ?sec + pageSize d - 1) div pageSize d"
  let ?w2 = "w\<lparr>trace := trace w @ [GetPagingProgress u, CountByUserUuid Secondary u],
          script := drop 2 (script w)\<rparr>"
  let ?loop = "andThen (migratePagesLoop d u ts (Pages ?t) (?t + 1 - ?p) ?p) (\<lambda>_. ret (Ok ()))"
  let ?h = "\<lambda>msg. ret (Fail (ErroredWhenMigrating u msg))"
  have s: "suffix (script ?w2) (script w)" by (simp add: suffix_drop)
  then have "faultFree (script ?w2)" using assms(1) by (rule faultFree_suffix [rotated])
  then have "settles (migratePagesLoop d u ts (Pages ?t) (?t + 1 - ?p) ?p) ?w2 ()
     (foldl (expectedPrimary d) (revisions ?w2 Primary)
        (take ((?t + 1 - ?p) * pageSize d) (drop ((?p - 1) * pageSize d)
           (ofUser u (revisions ?w2 Secondary)))))"
    using assms(3) by (rule settles_migratePagesLoop)
  then have l: "settles (migratePagesLoop d u ts (Pages ?t) (?t + 1 - ?p) ?p) ?w2 ()
     (foldl (expectedPrimary d) (revisions w Primary) (drop ((?p - 1) * pageSize d) ?sec))"
    using pages_cover [OF assms(2,3), of ?sec "length ?sec"] by simp
  have "settles ?loop ?w2 (Ok ())
     (foldl (expectedPrimary d) (revisions w Primary) (drop ((?p - 1) * pageSize d) ?sec))"
    using l
  proof (rule settles_andThen)
    let ?w3 = "snd (migratePagesLoop d u ts (Pages ?t) (?t + 1 - ?p) ?p ?w2)"
    have "revisions ?w3 Primary
        = foldl (expectedPrimary d) (revisions w Primary) (drop ((?p - 1) * pageSize d) ?sec)"
      using l by (simp add: settles_def)
    then show "settles (ret (Ok ())) ?w3 (Ok ())
       (foldl (expectedPrimary d) (revisions w Primary) (drop ((?p - 1) * pageSize d) ?sec))"
      using settles_ret [of "Ok ()" ?w3] by simp
  qed
  then have "settles (tryCatch ?loop ?h) ?w2 (Ok ())
     (foldl (expectedPrimary d) (revisions w Primary) (drop ((?p - 1) * pageSize d) ?sec))"
    by (rule settles_tryCatch)
  moreover have "calm 2 (script w)" using assms(1) by (rule faultFree_calm)
  ultimately show ?thesis
    using s migrateRevisionsForUser_pages [of w d u ts] assms(2)
    by (auto simp add: settles_def intro: suffix_order.trans)
qed

lemma migrateRevisionsForUser_effect:
  assumes "faultFree (script w)" and "0 < pageSize d" and "pagingProgress w u \<noteq> Some 0"
  shows "fst (migrateRevisionsForUser d u ts w) = Returns (Ok ())"
    and "revisions (snd (migrateRevisionsForUser d u ts w)) =
       (revisions w)
         (Primary := foldl (expectedPrimary d) (revisions w Primary)
            (drop (((case pagingProgress w u of None \<Rightarrow> 1 | Some p \<Rightarrow> p) - 1) * pageSize d)
               (ofUser u (revisions w Secondary))))"
proof -
  have "1 \<le> (case pagingProgress w u of None \<Rightarrow> 1 | Some p \<Rightarrow> p)"
    using assms(3) by (cases "pagingProgress w u") auto
  then have s: "settles (migrateRevisionsForUser d u ts) w (Ok ())
     (foldl (expectedPrimary d) (revisions w Primary)
        (drop (((case pagingProgress w u of None \<Rightarrow> 1 | Some p \<Rightarrow> p) - 1) * pageSize d)
           (ofUser u (revisions w Secondary))))"
    using assms(1,2) by (intro settles_migrateRevisionsForUser)
  show "fst (migrateRevisionsForUser d u ts w) = Returns (Ok ())"
    using s by (simp add: settles_def)
  show "revisions (snd (migrateRevisionsForUser d u ts w)) =
       (revisions w)
         (Primary := foldl (expectedPrimary d) (revisions w Primary)
            (drop (((case pagingProgress w u of None \<Rightarrow> 1 | Some p \<Rightarrow> p) - 1) * pageSize d)
               (ofUser u (revisions w Secondary))))"
    using s by (simp add: settles_def)
qed

text \<open>
  C3. The paging migration handles every revision it fetches from the secondary store as
  follows. For one revision whose id is a valid uuid, when the calls made succeed: with no
  revision of that id and user in primary the revision is inserted; with a primary copy
  that is newer, or not newer and identical, only the lookup is made and primary is
  unchanged; with a primary copy that is neither, the primary copy is removed, the
  migrator sleeps 2000 ms and the revision is inserted. The loop over a page handles its
  first revision in this way and goes on with the rest in the world it was left in. A page
  is the slice of the user's secondary revisions at offset (page - 1) * pageSize, fetched
  after the keep-alive, if any, and the write of the paging progress. In a run without
  faults migrateRevisionsForUser returns success, leaves the secondary store as it was,
  and leaves in primary what handling the user's secondary revisions one after the other,
  from the first of the page of the paging progress on, leaves there.
\<close>

theorem paging_migration_cases:
  "(uuidIsValid d (rev_id r) \<and> calm 3 (script w)
    \<longrightarrow> (case inPrimary r w of
           None \<Rightarrow>
             migrateRevision d u r w =
               (Returns (),
                w\<lparr>revisions := (revisions w)(Primary := revisions w Primary @ [r]),
                  trace := trace w @ [FindOneByUuid Primary (rev_id r) (rev_userUuid r),
                                      Insert Primary r True],
                  script := drop 2 (script w)\<rparr>)
         | Some p \<Rightarrow>
             if rev_updatedAt p > rev_updatedAt r \<or> isIdenticalTo d p r
             then migrateRevision d u r w =
               (Returns (),
                w\<lparr>trace := trace w @ [FindOneByUuid Primary (rev_id r) (rev_userUuid r)],
                  script := drop 1 (script w)\<rparr>)
             else migrateRevision d u r w =
               (Returns (),
                w\<lparr>revisions := (revisions w)
                     (Primary := filter (\<lambda>x. \<not> (rev_id x = rev_id r \<and> rev_userUuid x = rev_userUuid r))
                                   (revisions w Primary) @ [r]),
                  trace := trace w @ [FindOneByUuid Primary (rev_id r) (rev_userUuid r),
                                      RemoveOneByUuid Primary (rev_id r) (rev_userUuid r),
                                      Sleep 2000, Insert Primary r True],
                  script := drop 3 (script w)\<rparr>)))
   \<and> migrateRevisions d u (r # rest) w =
       migrateRevisions d u rest (snd (migrateRevision d u r w))
   \<and> (calm 3 (script w) \<and> 1 \<le> page
    \<longrightarrow> migratePage d u ts tp page w =
          migrateRevisions d u
            (take (pageSize d) (drop ((page - 1) * pageSize d) (ofUser u (revisions w Secondary))))
            (w\<lparr>pagingProgress := (pagingProgress w)(u \<mapsto> page),
               trace := trace w
                 @ (if isPageInEvery10Percent page tp then [Publish u InProgress Revisions ts]
                    else [])
                 @ [SetPagingProgress u page,
                    FindByUserUuid Secondary u ((int page - 1) * int (pageSize d)) (pageSize d)],
               script := drop (if isPageInEvery10Percent page tp then 3 else 2) (script w)\<rparr>))
   \<and> (faultFree (script w) \<and> 0 < pageSize d \<and> pagingProgress w u \<noteq> Some 0
    \<longrightarrow> fst (migrateRevisionsForUser d u ts w) = Returns (Ok ())
        \<and> revisions (snd (migrateRevisionsForUser d u ts w)) =
            (revisions w)
              (Primary := foldl (expectedPrimary d) (revisions w Primary)
                 (drop (((case pagingProgress w u of None \<Rightarrow> 1 | Some p \<Rightarrow> p) - 1) * pageSize d)
                    (ofUser u (revisions w Secondary)))))"
  apply (intro conjI impI)
  subgoal by (elim conjE) (rule migrateRevision_four_cases)
  subgoal by (rule migrateRevisions_continues)
  subgoal by (elim conjE) (rule migratePage_fetches)
  subgoal by (elim conjE) (rule migrateRevisionsForUser_effect)
  subgoal by (elim conjE) (rule migrateRevisionsForUser_effect)
  done

theorem paging_migration_cases_witness:
  "migrateRevision exampleDeps ''u1'' exampleRevision (exampleWorld [olderRevision] [exampleRevision] [])
   = (Returns (),
      (exampleWorld [olderRevision] [exampleRevision] [])
        \<lparr>revisions := (revisions (exampleWorld [olderRevision] [exampleRevision] []))
                        (Primary := [exampleRevision]),
         trace := [FindOneByUuid Primary ''r1'' ''u1'', RemoveOneByUuid Primary ''r1'' ''u1'',
                   Sleep 2000, Insert Primary exampleRevision True]\<rparr>)
   \<and> fst (migrateRevisionsForUser exampleDeps ''u1'' 9
            (exampleWorld [olderRevision] [exampleRevision] [])) = Returns (Ok ())
   \<and> revisions (snd (migrateRevisionsForUser exampleDeps ''u1'' 9
            (exampleWorld [olderRevision] [exampleRevision] []))) Primary = [exampleRevision]
   \<and> revisions (snd (migrateRevisionsForUser exampleDeps ''u1'' 9
            (exampleWorld [] [exampleRevision] []))) Primary = [exampleRevision]
   \<and> revisions (snd (migrateRevisionsForUser exampleDeps ''u1'' 9
            (exampleWorld [exampleRevision] [olderRevision] []))) Primary = [exampleRevision]
   \<and> revisions (snd (migrateRevisionsForUser exampleDeps ''u1'' 9
            (exampleWorld [exampleRevision] [exampleRevision] []))) Primary = [exampleRevision]"
proof -
  have 1: "migrateRevision exampleDeps ''u1'' exampleRevision
      (exampleWorld [olderRevision] [exampleRevision] [])
   = (Returns (),
      (exampleWorld [olderRevision] [exampleRevision] [])
        \<lparr>revisions := (revisions (exampleWorld [olderRevision] [exampleRevision] []))
                        (Primary := [exampleRevision]),
         trace := [FindOneByUuid Primary ''r1'' ''u1'', RemoveOneByUuid Primary ''r1'' ''u1'',
                   Sleep 2000, Insert Primary exampleRevision True]\<rparr>)"
    using paging_migration_cases [where d = exampleDeps and r = exampleRevision
        and w = "exampleWorld [olderRevision] [exampleRevision] []" and u = "''u1''",
        THEN conjunct1]
    by (simp add: exampleDeps_def exampleRevision_def olderRevision_def exampleWorld_def
        inPrimary_def calm_def)
  have 2: "fst (migrateRevisionsForUser exampleDeps ''u1'' 9 (exampleWorld p s []))
        = Returns (Ok ())
      \<and> revisions (snd (migrateRevisionsForUser exampleDeps ''u1'' 9 (exampleWorld p s [])))
          Primary = foldl (expectedPrimary exampleDeps) p (ofUser ''u1'' s)" for p s
    using paging_migration_cases [where d = exampleDeps and w = "exampleWorld p s []"
        and u = "''u1''" and ts = 9, THEN conjunct2, THEN conjunct2, THEN conjunct2]
    by (simp add: exampleDeps_def exampleWorld_def faultFree_def)
  show ?thesis
    using 1 2 [of "[olderRevision]" "[exampleRevision]"] 2 [of "[]" "[exampleRevision]"]
      2 [of "[exampleRevision]" "[olderRevision]"] 2 [of "[exampleRevision]" "[exampleRevision]"]
    by (simp add: expectedPrimary_def ofUser_def exampleDeps_def exampleRevision_def
        olderRevision_def)
qed

subsection \<open>The integrity check as a whole\<close>

lemma expectedVerdicts_append:
  "expectedVerdicts d u primary (xs @ ys) =
     (case expectedVerdicts d u primary xs of
        Fail e \<Rightarrow> Fail e
      | Ok _ \<Rightarrow> expectedVerdicts d u primary ys)"
  by (induction xs) (simp_all split: result.splits)

lemma settles_checkRevision:
  assumes "thrown (script w) = None"
  shows "settles (checkRevision d u r) w (expectedVerdict d u (revisions w Primary) r)
           (revisions w Primary)"
  using assms
  by (simp add: checkRevision_def expectedVerdict_def findOneByUuid_def andThen_def ret_def
      call_ok settles_def split: option.splits)

lemma settles_checkRevisions:
  "noThrow (script w) \<Longrightarrow>
   settles (checkRevisions d u rs) w (expectedVerdicts d u (revisions w Primary) rs)
     (revisions w Primary)"
proof (induction rs arbitrary: w)
  case Nil
  show ?case by (simp add: settles_ret)
next
  case (Cons r rs)
  have 1: "settles (checkRevision d u r) w (expectedVerdict d u (revisions w Primary) r)
             (revisions w Primary)"
    using Cons.prems by (simp add: settles_checkRevision noThrow_thrown)
  show ?case
    unfolding checkRevisions.simps
    using 1
  proof (rule settles_after)
    fix w1 :: world
    assume r1: "revisions w1 = revisions w" and s1: "suffix (script w1) (script w)"
    have "noThrow (script w1)" using Cons.prems s1 by (rule noThrow_suffix)
    then have "settles (checkRevisions d u rs) w1
        (expectedVerdicts d u (revisions w1 Primary) rs) (revisions w1 Primary)"
      by (rule Cons.IH)
    then show "settles
        (case expectedVerdict d u (revisions w Primary) r of
           Fail e \<Rightarrow> ret (Fail e)
         | Ok x \<Rightarrow> checkRevisions d u rs) w1
        (expectedVerdicts d u (revisions w Primary) (r # rs)) (revisions w Primary)"
      using r1 settles_ret [of _ w1]
      by (cases "expectedVerdict d u (revisions w Primary) r") simp_all
  qed
qed

lemma settles_checkPage:
  assumes "noThrow (script w)" and "1 \<le> p"
  shows "settles (checkPage d u p) w
     (expectedVerdicts d u (revisions w Primary)
        (take (pageSize d) (drop ((p - 1) * pageSize d) (ofUser u (revisions w Secondary)))))
     (revisions w Primary)"
  unfolding checkPage_def
proof (rule settles_after)
  show "settles (setIntegrityProgress u p) w () (revisions w Primary)"
    using assms(1) by (simp add: settles_prims noThrow_thrown)
next
  fix w1 :: world
  assume r1: "revisions w1 = revisions w" and s1: "suffix (script w1) (script w)"
  have n1: "noThrow (script w1)" using assms(1) s1 by (rule noThrow_suffix)
  let ?page = "take (pageSize d) (drop ((p - 1) * pageSize d) (ofUser u (revisions w Secondary)))"
  have f: "settles (findByUserUuid Secondary u ((int p - 1) * int (pageSize d)) (pageSize d)) w1
      ?page (revisions w1 Primary)"
    using n1 r1 page_offset [OF assms(2), of "pageSize d"]
      settles_prims(4) [of w1 "(int p - 1) * int (pageSize d)" Secondary u "pageSize d"]
    by (simp add: noThrow_thrown)
  show "settles
      (andThen (findByUserUuid Secondary u ((int p - 1) * int (pageSize d)) (pageSize d))
         (\<lambda>revisions. checkRevisions d u revisions)) w1
      (expectedVerdicts d u (revisions w Primary) ?page) (revisions w Primary)"
    using f
  proof (rule settles_after)
    fix w2 :: world
    assume r2: "revisions w2 = revisions w1" and s2: "suffix (script w2) (script w1)"
    have "noThrow (script w2)" using n1 s2 by (rule noThrow_suffix)
    then show "settles (checkRevisions d u ?page) w2
        (expectedVerdicts d u (revisions w Primary) ?page) (revisions w Primary)"
      using settles_checkRevisions [of w2 d u ?page] r1 r2 by simp
  qed
qed

lemma settles_checkPagesLoop:
  "noThrow (script w) \<Longrightarrow> 1 \<le> p \<Longrightarrow>
   settles (checkPagesLoop d u n p) w
     (expectedVerdicts d u (revisions w Primary)
        (take (n * pageSize d) (drop ((p - 1) * pageSize d) (ofUser u (revisions w Secondary)))))
     (revisions w Primary)"
proof (induction n arbitrary: w p)
  case 0
  show ?case by (simp add: settles_ret)
next
  case (Suc n)
  let ?sec = "ofUser u (revisions w Secondary)"
  let ?page = "take (pageSize d) (drop ((p - 1) * pageSize d) ?sec)"
  let ?rest = "take (n * pageSize d) (drop (p * pageSize d) ?sec)"
  have 1: "settles (checkPage d u p) w (expectedVerdicts d u (revisions w Primary) ?page)
             (revisions w Primary)"
    using Suc.prems by (rule settles_checkPage)
  have e: "take (Suc n * pageSize d) (drop ((p - 1) * pageSize d) ?sec) = ?page @ ?rest"
    using pages_take [OF Suc.prems(2), of "pageSize d" ?sec n] by simp
  show ?case
    unfolding checkPagesLoop.simps e
    using 1
  proof (rule settles_after)
    fix w1 :: world
    assume r1: "revisions w1 = revisions w" and s1: "suffix (script w1) (script w)"
    have "noThrow (script w1)" using Suc.prems(1) s1 by (rule noThrow_suffix)
    then have "settles (checkPagesLoop d u n (p + 1)) w1
        (expectedVerdicts d u (revisions w1 Primary)
           (take (n * pageSize d) (drop ((p + 1 - 1) * pageSize d) (ofUser u (revisions w1 Secondary)))))
        (revisions w1 Primary)"
      by (rule Suc.IH) simp
    then show "settles
        (case expectedVerdicts d u (revisions w Primary) ?page of
           Fail e \<Rightarrow> ret (Fail e)
         | Ok x \<Rightarrow> checkPagesLoop d u n (p + 1)) w1
        (expectedVerdicts d u (revisions w Primary) (?page @ ?rest)) (revisions w Primary)"
      using r1 settles_ret [of _ w1]
      by (cases "expectedVerdicts d u (revisions w Primary) ?page")
        (simp_all add: expectedVerdicts_append)
  qed
qed

lemma settles_checkIntegrity:
  assumes "noThrow (script w)" and "0 < pageSize d"
    and "1 \<le> (case integrityProgress w u of None \<Rightarrow> 1 | Some p \<Rightarrow> p)"
  shows "settles (checkIntegrityBetweenPrimaryAndSecondaryDatabase d u) w
     (if length (ofUser u (revisions w Primary)) < length (ofUser u (revisions w Secondary))
      then Fail (CountMismatch u (length (ofUser u (revisions w Primary)))
                   (length (ofUser u (revisions w Secondary))))
      else expectedVerdicts d u (revisions w Primary)
             (drop (((case integrityProgress w u of None \<Rightarrow> 1 | Some p \<Rightarrow> p) - 1) * pageSize d)
                (ofUser u (revisions w Secondary))))
     (revisions w Primary)"
  unfolding checkIntegrityBetweenPrimaryAndSecondaryDatabase_def
proof (rule settles_tryCatch, rule settles_after)
  show "settles (getIntegrityProgress u) w (case integrityProgress w u of None \<Rightarrow> 1 | Some p \<Rightarrow> p)
      (revisions w Primary)"
    using assms(1) by (simp add: settles_prims noThrow_thrown)
next
  let ?p = "case integrityProgress w u of None \<Rightarrow> 1 | Some p \<Rightarrow> p"
  let ?sec = "ofUser u (revisions w Secondary)"
  let ?pri = "ofUser u (revisions w Primary)"
  let ?answer = "if length ?pri < length ?sec
      then Fail (CountMismatch u (length ?pri) (length ?sec))
      else expectedVerdicts d u (revisions w Primary) (drop ((?p - 1) * pageSize d) ?sec)"
  let ?decide = "\<lambda>np ns. if np < ns then ret (Fail (CountMismatch u np ns))
          else checkPages d u (mathCeilDiv np (pageSize d)) ?p"
  fix w1 :: world
  assume r1: "revisions w1 = revisions w" and s1: "suffix (script w1) (script w)"
  have n1: "noThrow (script w1)" using assms(1) s1 by (rule noThrow_suffix)
  have c1: "settles (countByUserUuid Secondary u) w1 (length ?sec) (revisions w1 Primary)"
    using n1 r1 settles_prims(5) [of w1 Secondary u] by (simp add: noThrow_thrown)
  show "settles
      (andThen (countByUserUuid Secondary u) (\<lambda>ns.
         andThen (countByUserUuid Primary u) (\<lambda>np. ?decide np ns))) w1
      ?answer (revisions w Primary)"
    using c1
  proof (rule settles_after)
    fix w2 :: world
    assume r2: "revisions w2 = revisions w1" and s2: "suffix (script w2) (script w1)"
    have n2: "noThrow (script w2)" using n1 s2 by (rule noThrow_suffix)
    have c2: "settles (countByUserUuid Primary u) w2 (length ?pri) (revisions w2 Primary)"
      using n2 r1 r2 settles_prims(5) [of w2 Primary u] by (simp add: noThrow_thrown)
    show "settles (andThen (countByUserUuid Primary u) (\<lambda>np. ?decide np (length ?sec))) w2
        ?answer (revisions w Primary)"
      using c2
    proof (rule settles_after)
      fix w3 :: world
      assume r3: "revisions w3 = revisions w2" and s3: "suffix (script w3) (script w2)"
      have n3: "noThrow (script w3)" using n2 s3 by (rule noThrow_suffix)
      have r: "revisions w3 = revisions w" using r1 r2 r3 by simp
      show "settles (?decide (length ?pri) (length ?sec)) w3 ?answer (revisions w Primary)"
      proof (cases "length ?pri < length ?sec")
        case True
        then show ?thesis using settles_ret [of _ w3] r by simp
      next
        case False
        let ?t = "(length ?pri + pageSize d - 1) div pageSize d"
        have "settles (checkPagesLoop d u (?t + 1 - ?p) ?p) w3
            (expectedVerdicts d u (revisions w3 Primary)
               (take ((?t + 1 - ?p) * pageSize d)
                  (drop ((?p - 1) * pageSize d) (ofUser u (revisions w3 Secondary)))))
            (revisions w3 Primary)"
          using n3 assms(3) by (rule settles_checkPagesLoop)
        then show ?thesis
          using False r assms(2) pages_cover [OF assms(2,3), of ?sec "length ?pri"]
          by (simp add: checkPages_def mathCeilDiv_def)
      qed
    qed
  qed
qed

lemma checkPagesLoop_step:
  "fst (checkPage d u p w) = Returns (Fail e) \<Longrightarrow>
     checkPagesLoop d u (Suc n) p w = (Returns (Fail e), snd (checkPage d u p w))"
  "fst (checkPage d u p w) = Returns (Ok ()) \<Longrightarrow>
     checkPagesLoop d u (Suc n) p w = checkPagesLoop d u n (p + 1) (snd (checkPage d u p w))"
  by (cases "checkPage d u p w"; simp add: andThen_def ret_def)+

lemma checkIntegrity_answer:
  assumes "noThrow (script w)" and "0 < pageSize d" and "integrityProgress w u \<noteq> Some 0"
  shows "fst (checkIntegrityBetweenPrimaryAndSecondaryDatabase d u w) =
     Returns
       (if length (ofUser u (revisions w Primary)) < length (ofUser u (revisions w Secondary))
        then Fail (CountMismatch u (length (ofUser u (revisions w Primary)))
                     (length (ofUser u (revisions w Secondary))))
        else expectedVerdicts d u (revisions w Primary)
               (drop (((case integrityProgress w u of None \<Rightarrow> 1 | Some p \<Rightarrow> p) - 1) * pageSize d)
                  (ofUser u (revisions w Secondary))))"
    and "revisions (snd (checkIntegrityBetweenPrimaryAndSecondaryDatabase d u w)) = revisions w"
proof -
  have "1 \<le> (case integrityProgress w u of None \<Rightarrow> 1 | Some p \<Rightarrow> p)"
    using assms(3) by (cases "integrityProgress w u") auto
  then have s: "settles (checkIntegrityBetweenPrimaryAndSecondaryDatabase d u) w
     (if length (ofUser u (revisions w Primary)) < length (ofUser u (revisions w Secondary))
      then Fail (CountMismatch u (length (ofUser u (revisions w Primary)))
                   (length (ofUser u (revisions w Secondary))))
      else expectedVerdicts d u (revisions w Primary)
             (drop (((case integrityProgress w u of None \<Rightarrow> 1 | Some p \<Rightarrow> p) - 1) * pageSize d)
                (ofUser u (revisions w Secondary))))
     (revisions w Primary)"
    using assms(1,2) by (intro settles_checkIntegrity)
  show "fst (checkIntegrityBetweenPrimaryAndSecondaryDatabase d u w) =
     Returns
       (if length (ofUser u (revisions w Primary)) < length (ofUser u (revisions w Secondary))
        then Fail (CountMismatch u (length (ofUser u (revisions w Primary)))
                     (length (ofUser u (revisions w Secondary))))
        else expectedVerdicts d u (revisions w Primary)
               (drop (((case integrityProgress w u of None \<Rightarrow> 1 | Some p \<Rightarrow> p) - 1) * pageSize d)
                  (ofUser u (revisions w Secondary))))"
    using s unfolding settles_def by (elim conjE)
  show "revisions (snd (checkIntegrityBetweenPrimaryAndSecondaryDatabase d u w)) = revisions w"
    using s by (simp add: settles_def)
qed

text \<open>
  C4. The integrity check fails at once, before any page is read, when the primary store
  holds fewer revisions of the user than the secondary store. Otherwise it runs the page
  loop from the integrity progress to the number of pages of the primary count; each page
  is fetched from the secondary store after the integrity progress is written, and for
  every revision of the page in turn (its id a valid uuid, the lookup not throwing): the
  check fails when primary has no revision of that id for the user; it goes on to the
  next revision when the primary copy is newer or the two are identical; otherwise it
  fails with an error that carries both copies. The page loop returns the failure of a
  page at once and goes on to the next page after a page that passed. In a run where no
  call throws the check answers the count mismatch, or else the first failure among the
  user's secondary revisions from the first of the page of the integrity progress on,
  or success when there is none; it leaves both stores as they were.
\<close>

theorem integrity_check_cases:
  "(calm 3 (script w)
      \<and> length (ofUser u (revisions w Primary)) < length (ofUser u (revisions w Secondary))
    \<longrightarrow> checkIntegrityBetweenPrimaryAndSecondaryDatabase d u w =
          (Returns (Fail (CountMismatch u (length (ofUser u (revisions w Primary)))
                            (length (ofUser u (revisions w Secondary))))),
           w\<lparr>trace := trace w @ [GetIntegrityProgress u, CountByUserUuid Secondary u,
                                   CountByUserUuid Primary u],
             script := drop 3 (script w)\<rparr>))
   \<and> (calm 3 (script w) \<and> 0 < pageSize d
      \<and> \<not> length (ofUser u (revisions w Primary)) < length (ofUser u (revisions w Secondary))
    \<longrightarrow> checkIntegrityBetweenPrimaryAndSecondaryDatabase d u w =
          tryCatch
            (checkPagesLoop d u
               ((length (ofUser u (revisions w Primary)) + pageSize d - 1) div pageSize d + 1
                  - (case integrityProgress w u of None \<Rightarrow> 1 | Some p \<Rightarrow> p))
               (case integrityProgress w u of None \<Rightarrow> 1 | Some p \<Rightarrow> p))
            (\<lambda>msg. ret (Fail (ErroredWhenCheckingIntegrity msg)))
            (w\<lparr>trace := trace w @ [GetIntegrityProgress u, CountByUserUuid Secondary u,
                                    CountByUserUuid Primary u],
               script := drop 3 (script w)\<rparr>))
   \<and> (calm 2 (script w) \<and> 1 \<le> p
    \<longrightarrow> checkPage d u p w =
          checkRevisions d u
            (take (pageSize d) (drop ((p - 1) * pageSize d) (ofUser u (revisions w Secondary))))
            (w\<lparr>integrityProgress := (integrityProgress w)(u \<mapsto> p),
               trace := trace w @ [SetIntegrityProgress u p,
                                   FindByUserUuid Secondary u ((int p - 1) * int (pageSize d))
                                     (pageSize d)],
               script := drop 2 (script w)\<rparr>))
   \<and> (uuidIsValid d (rev_id r) \<and> calm 1 (script w)
    \<longrightarrow> checkRevisions d u (r # rest) w =
          (let w1 = w\<lparr>trace := trace w @ [FindOneByUuid Primary (rev_id r) u],
                       script := tl (script w)\<rparr>
           in case find (\<lambda>x. rev_id x = rev_id r \<and> rev_userUuid x = u) (revisions w Primary) of
                None \<Rightarrow> (Returns (Fail (NotFoundInPrimary (rev_id r))), w1)
              | Some p \<Rightarrow>
                  if rev_updatedAt p > rev_updatedAt r then checkRevisions d u rest w1
                  else if isIdenticalTo d r p then checkRevisions d u rest w1
                  else (Returns (Fail (NotIdentical (rev_id r) p r)), w1)))
   \<and> (fst (checkPage d u p w) = Returns (Fail e)
    \<longrightarrow> checkPagesLoop d u (Suc n) p w = (Returns (Fail e), snd (checkPage d u p w)))
   \<and> (fst (checkPage d u p w) = Returns (Ok ())
    \<longrightarrow> checkPagesLoop d u (Suc n) p w =
          checkPagesLoop d u n (p + 1) (snd (checkPage d u p w)))
   \<and> (noThrow (script w) \<and> 0 < pageSize d \<and> integrityProgress w u \<noteq> Some 0
    \<longrightarrow> fst (checkIntegrityBetweenPrimaryAndSecondaryDatabase d u w) =
          Returns
            (if length (ofUser u (revisions w Primary)) < length (ofUser u (revisions w Secondary))
             then Fail (CountMismatch u (length (ofUser u (revisions w Primary)))
                          (length (ofUser u (revisions w Secondary))))
             else expectedVerdicts d u (revisions w Primary)
                    (drop (((case integrityProgress w u of None \<Rightarrow> 1 | Some p \<Rightarrow> p) - 1)
                             * pageSize d)
                       (ofUser u (revisions w Secondary))))
        \<and> revisions (snd (checkIntegrityBetweenPrimaryAndSecondaryDatabase d u w)) = revisions w)"
  apply (intro conjI impI)
  subgoal by (elim conjE) (rule checkIntegrity_count_mismatch)
  subgoal by (elim conjE) (rule checkIntegrity_pages)
  subgoal by (elim conjE) (rule checkPage_fetches)
  subgoal by (elim conjE) (rule checkRevisions_step, assumption, auto dest!: calm_SucD)
  subgoal by (rule checkPagesLoop_step)
  subgoal by (rule checkPagesLoop_step)
  subgoal by (elim conjE) (rule checkIntegrity_answer)
  subgoal by (elim conjE) (rule checkIntegrity_answer)
  done

theorem integrity_check_cases_witness:
  "fst (checkIntegrityBetweenPrimaryAndSecondaryDatabase exampleDeps ''u1''
          (exampleWorld [] [exampleRevision] [])) = Returns (Fail (CountMismatch ''u1'' 0 1))
   \<and> fst (checkPage exampleDeps ''u1'' 1 (exampleWorld [olderRevision] [exampleRevision] []))
       = Returns (Fail (NotIdentical ''r1'' olderRevision exampleRevision))
   \<and> fst (checkRevisions exampleDeps ''u1'' [exampleRevision]
             (exampleWorld [exampleRevision] [exampleRevision] [])) = Returns (Ok ())
   \<and> fst (checkPagesLoop exampleDeps ''u1'' 1 1
             (exampleWorld [olderRevision] [exampleRevision] []))
       = Returns (Fail (NotIdentical ''r1'' olderRevision exampleRevision))
   \<and> fst (checkIntegrityBetweenPrimaryAndSecondaryDatabase exampleDeps ''u1''
            (exampleWorld [exampleRevision] [exampleRevision] [])) = Returns (Ok ())
   \<and> fst (checkIntegrityBetweenPrimaryAndSecondaryDatabase exampleDeps ''u1''
            (exampleWorld [exampleRevision] [olderRevision] [])) = Returns (Ok ())
   \<and> fst (checkIntegrityBetweenPrimaryAndSecondaryDatabase exampleDeps ''u1''
            (exampleWorld [olderRevision] [exampleRevision] []))
       = Returns (Fail (NotIdentical ''r1'' olderRevision exampleRevision))
   \<and> fst (checkIntegrityBetweenPrimaryAndSecondaryDatabase exampleDeps ''u1''
            (exampleWorld [exampleRevision\<lparr>rev_id := ''r2''\<rparr>] [exampleRevision] []))
       = Returns (Fail (NotFoundInPrimary ''r1''))"
proof -
  have 1: "fst (checkIntegrityBetweenPrimaryAndSecondaryDatabase exampleDeps ''u1''
          (exampleWorld [] [exampleRevision] [])) = Returns (Fail (CountMismatch ''u1'' 0 1))"
    using integrity_check_cases [where w = "exampleWorld [] [exampleRevision] []"
        and u = "''u1''" and d = exampleDeps, THEN conjunct1]
    by (simp add: exampleWorld_def exampleRevision_def ofUser_def calm_def)
  have 2: "fst (checkPage exampleDeps ''u1'' 1 (exampleWorld [olderRevision] [exampleRevision] []))
       = Returns (Fail (NotIdentical ''r1'' olderRevision exampleRevision))"
    using integrity_check_cases [of "exampleWorld [olderRevision] [exampleRevision] []" "''u1''"
        exampleDeps 1]
      integrity_check_cases [of "(exampleWorld [olderRevision] [exampleRevision] [])
            \<lparr>integrityProgress := Map.empty(''u1'' \<mapsto> 1),
              trace := [SetIntegrityProgress ''u1'' 1, FindByUserUuid Secondary ''u1'' 0 5]\<rparr>"
        "''u1''" exampleDeps _ exampleRevision "[]"]
    by (simp add: exampleWorld_def exampleRevision_def olderRevision_def exampleDeps_def
        ofUser_def calm_def)
  have 3: "fst (checkRevisions exampleDeps ''u1'' [exampleRevision]
             (exampleWorld [exampleRevision] [exampleRevision] [])) = Returns (Ok ())"
    using integrity_check_cases [of "exampleWorld [exampleRevision] [exampleRevision] []" "''u1''"
        exampleDeps _ exampleRevision "[]"]
    by (simp add: exampleWorld_def exampleRevision_def exampleDeps_def calm_def ret_def)
  have 4: "fst (checkPagesLoop exampleDeps ''u1'' 1 1
             (exampleWorld [olderRevision] [exampleRevision] []))
       = Returns (Fail (NotIdentical ''r1'' olderRevision exampleRevision))"
    using 2 integrity_check_cases [where w = "exampleWorld [olderRevision] [exampleRevision] []"
        and u = "''u1''" and d = exampleDeps and p = 1 and n = 0
        and e = "NotIdentical ''r1'' olderRevision exampleRevision",
        THEN conjunct2, THEN conjunct2, THEN conjunct2, THEN conjunct2, THEN conjunct1]
    by (simp del: checkPagesLoop.simps)
  have 5: "fst (checkIntegrityBetweenPrimaryAndSecondaryDatabase exampleDeps ''u1''
            (exampleWorld p s [])) =
      Returns (if length (ofUser ''u1'' p) < length (ofUser ''u1'' s)
               then Fail (CountMismatch ''u1'' (length (ofUser ''u1'' p)) (length (ofUser ''u1'' s)))
               else expectedVerdicts exampleDeps ''u1'' p (ofUser ''u1'' s))" for p s
    using integrity_check_cases [where w = "exampleWorld p s []" and u = "''u1''"
        and d = exampleDeps, THEN conjunct2, THEN conjunct2, THEN conjunct2, THEN conjunct2,
        THEN conjunct2, THEN conjunct2]
    by (simp add: exampleDeps_def exampleWorld_def noThrow_def)
  show ?thesis
    using 1 2 3 4 5 [of "[exampleRevision]" "[exampleRevision]"]
      5 [of "[exampleRevision]" "[olderRevision]"] 5 [of "[olderRevision]" "[exampleRevision]"]
      5 [of "[exampleRevision\<lparr>rev_id := ''r2''\<rparr>]" "[exampleRevision]"]
    by (simp add: expectedVerdict_def ofUser_def exampleDeps_def exampleRevision_def
        olderRevision_def)
qed

subsection \<open>The order of the status events\<close>

lemma keepAlivesThenTerminal_append:
  "list_all (\<lambda>st. st = InProgress) ks \<Longrightarrow> t \<noteq> InProgress \<Longrightarrow> keepAlivesThenTerminal (ks @ [t])"
proof (induction ks)
  case Nil
  then show ?case by (cases t) simp_all
next
  case (Cons k ks)
  then show ?case by (cases "ks @ [t]") simp_all
qed

lemma published_local [simp]:
  "published (Sleep ms # es) = published es"
  "published (LogError m # es) = published es"
  by (simp_all add: published_def)

lemma andThen_ReturnsE:
  assumes "andThen m f w = (Returns r, w')"
  obtains x w1 where "m w = (Returns x, w1)" and "f x w1 = (Returns r, w')"
  using assms by (auto simp add: andThen_def split: prod.splits outcome.splits)

lemma publish_trace:
  "updateTransitionStatus u st ts w = (Returns x, w') \<Longrightarrow>
   trace w' = trace w @ [Publish u st Revisions ts]"
  by (auto simp add: updateTransitionStatus_def call_def split: option.splits)

lemma logError_trace: "logError m w = (Returns x, w') \<Longrightarrow> trace w' = trace w @ [LogError m]"
  by (auto simp add: logError_def)

lemma silentD:
  assumes "steps (advances silent) m" and "m w = (r, w')"
  shows "\<exists>es. trace w' = trace w @ es \<and> published es = []"
  using stepsD [OF assms] by (auto elim!: advancesE simp add: silent_def)

lemma keepAlivesD:
  assumes "steps (advances keepAlives) m" and "m w = (r, w')"
  shows "\<exists>es. trace w' = trace w @ es \<and> list_all (\<lambda>st. st = InProgress) (published es)"
  using stepsD [OF assms] by (auto elim!: advancesE simp add: keepAlives_def)

lemma isAlreadyMigrated_result:
  "isAlreadyMigrated u w = (Returns b, w') \<Longrightarrow> b = (ofUser u (revisions w Secondary) = [])"
  by (auto simp add: isAlreadyMigrated_def countByUserUuid_def andThen_def ret_def call_def
      split: option.splits)

lemma sleep_trace: "sleep ms w = (Returns x, w') \<Longrightarrow> trace w' = trace w @ [Sleep ms]"
  by (auto simp add: sleep_def)

text \<open>
  C2, as amended. For a call of execute that returns a result and in which the cleanup of
  the secondary store did not fail, the statuses published by the call are: none, when a
  repository is not configured or the user id is not a valid uuid; exactly Verified, when
  the user has no revision in the secondary store; otherwise InProgress, then zero or more
  InProgress, then exactly one of Verified and Failed.
\<close>

theorem execute_status_order:
  assumes "execute d dto w = (Returns r, w')"
    and "\<not> list_ex isCleanUpFailure (drop (length (trace w)) (trace w'))"
  shows "if \<not> secondRevisionsRepositorySet d \<or> \<not> transitionStatusRepositorySet d
            \<or> \<not> uuidIsValid d (dto_userUuid dto)
         then published (drop (length (trace w)) (trace w')) = []
         else if ofUser (dto_userUuid dto) (revisions w Secondary) = []
         then published (drop (length (trace w)) (trace w')) = [Verified]
         else strictOrder (published (drop (length (trace w)) (trace w')))"
proof (cases "\<not> secondRevisionsRepositorySet d \<or> \<not> transitionStatusRepositorySet d
            \<or> \<not> uuidIsValid d (dto_userUuid dto)")
  case True
  then have "w' = w"
    using assms(1) by (auto simp add: execute_def ret_def split: if_splits)
  then show ?thesis using True by simp
next
  case False
  let ?u = "dto_userUuid dto" and ?ts = "dto_timestamp dto"
  note silentD [OF silent_isAlreadyMigrated, dest!]
    keepAlivesD [OF keepAlives_migrateRevisionsForUser, dest!]
    silentD [OF silent_checkIntegrity, dest!]
    silentD [OF silent_deleteRevisionsForUser, dest!]
    silentD [OF silent_prims(7), dest!]
    silentD [OF silent_prims(9), dest!]
  show ?thesis
    using assms False
    apply (simp add: execute_def Let_def allowForPrimaryDatabaseToCatchUp_def)
    apply (erule andThen_ReturnsE)
    apply (frule isAlreadyMigrated_result)
    apply (auto simp add: ret_def keepAlivesThenTerminal_append
        allowForPrimaryDatabaseToCatchUp_def
        split: if_splits result.splits elim!: andThen_ReturnsE
        dest!: publish_trace logError_trace sleep_trace)
    done
qed

theorem execute_status_order_witness:
  "strictOrder (published (trace (snd (execute exampleDeps exampleDto
      (exampleWorld [] [exampleRevision] [])))))"
proof -
  let ?w = "exampleWorld [] [exampleRevision] []"
  have "fst (execute exampleDeps exampleDto ?w) = Returns (Ok ())"
    by code_simp
  then have 1: "execute exampleDeps exampleDto ?w
                = (Returns (Ok ()), snd (execute exampleDeps exampleDto ?w))"
    by (simp add: prod_eq_iff)
  have 2: "\<not> list_ex isCleanUpFailure
             (drop (length (trace ?w)) (trace (snd (execute exampleDeps exampleDto ?w))))"
    by code_simp
  show ?thesis
    using execute_status_order [OF 1 2]
    by (simp add: exampleDeps_def exampleDto_def exampleWorld_def exampleRevision_def ofUser_def)
qed

text \<open>
  The order as the specification states it fails on the short circuit: for a user with nothing in
  the secondary store the only event is Verified, with no InProgress before it.
\<close>

theorem short_circuit_publishes_only_verified:
  "\<not> strictOrder (published (trace (snd (execute exampleDeps exampleDto
        (exampleWorld [exampleRevision] [] [])))))"
  by code_simp

subsection \<open>Verified after a failed cleanup\<close>

lemma publish_world:
  "updateTransitionStatus u st ts w = (Returns x, w') \<Longrightarrow>
   trace w' = trace w @ [Publish u st Revisions ts] \<and> revisions w' = revisions w"
  by (auto simp add: updateTransitionStatus_def call_def split: option.splits)

lemma isAlreadyMigrated_world:
  "isAlreadyMigrated u w = (Returns b, w') \<Longrightarrow>
   b = (ofUser u (revisions w Secondary) = []) \<and> revisions w' = revisions w
   \<and> (\<exists>es. trace w' = trace w @ es \<and> published es = [])"
  by (auto simp add: isAlreadyMigrated_def countByUserUuid_def andThen_def ret_def call_def
      published_def split: option.splits)

lemma deleteRevisionsForUser_world:
  "deleteRevisionsForUser u Secondary w = (Returns c, w') \<Longrightarrow>
   (c = Ok () \<longrightarrow> ofUser u (revisions w' Secondary) = [])
   \<and> (\<exists>es. trace w' = trace w @ es \<and> published es = [])"
  by (auto simp add: deleteRevisionsForUser_def removeByUserUuid_def tryCatch_def andThen_def
      ret_def call_def ofUser_def published_def filter_empty_conv
      split: option.splits prod.splits outcome.splits)

lemma keepAlives_not_Verified: "list_all (\<lambda>st. st = InProgress) sts \<Longrightarrow> Verified \<notin> set sts"
  by (auto simp add: list_all_iff)

text \<open>
  Apart from a failed cleanup the invariant holds: when execute returns, the cleanup
  error was not logged and Verified was published, the user has no revision left in the
  secondary store.
\<close>

lemma verified_means_secondary_empty:
  assumes "execute d dto w = (Returns r, w')"
    and "\<not> list_ex isCleanUpFailure (drop (length (trace w)) (trace w'))"
    and "Verified \<in> set (published (drop (length (trace w)) (trace w')))"
  shows "ofUser (dto_userUuid dto) (revisions w' Secondary) = []"
proof (cases "\<not> secondRevisionsRepositorySet d \<or> \<not> transitionStatusRepositorySet d
            \<or> \<not> uuidIsValid d (dto_userUuid dto)")
  case True
  then have "w' = w"
    using assms(1) by (auto simp add: execute_def ret_def split: if_splits)
  then show ?thesis using assms(3) by simp
next
  case False
  note keepAlivesD [OF keepAlives_migrateRevisionsForUser, dest!]
    silentD [OF silent_checkIntegrity, dest!]
    silentD [OF silent_prims(7), dest!]
    silentD [OF silent_prims(9), dest!]
  show ?thesis
    using assms False
    apply (simp add: execute_def Let_def allowForPrimaryDatabaseToCatchUp_def)
    apply (erule andThen_ReturnsE)
    apply (frule isAlreadyMigrated_world)
    apply (auto simp add: ret_def
        allowForPrimaryDatabaseToCatchUp_def
        split: if_splits result.splits elim!: andThen_ReturnsE
        dest!: publish_world logError_trace sleep_trace deleteRevisionsForUser_world
          keepAlives_not_Verified)
    done
qed

text \<open>
  C1. Every Verified event should find the user's secondary store empty. In the run below
  the revision is already in primary, migration and integrity check pass, and the
  fifteenth call on a repository or the publisher, \<^verbatim>\<open>removeByUserUuid\<close> on the
  secondary store, throws. execute
  publishes Failed, logs the cleanup error, then still publishes Verified as its last call
  and returns success, while the secondary store holds the user's revision.
\<close>

theorem verified_published_after_failed_cleanup:
  "fst (execute exampleDeps exampleDto
          (exampleWorld [exampleRevision] [exampleRevision]
             (replicate 14 NoFault @ [Throw ''boom''])))
     = Returns (Ok ())
   \<and> published (trace (snd (execute exampleDeps exampleDto
          (exampleWorld [exampleRevision] [exampleRevision]
             (replicate 14 NoFault @ [Throw ''boom''])))))
     = [InProgress, InProgress, Failed, Verified]
   \<and> last (trace (snd (execute exampleDeps exampleDto
          (exampleWorld [exampleRevision] [exampleRevision]
             (replicate 14 NoFault @ [Throw ''boom''])))))
     = Publish ''u1'' Verified Revisions 9
   \<and> length (ofUser ''u1'' (revisions (snd (execute exampleDeps exampleDto
          (exampleWorld [exampleRevision] [exampleRevision]
             (replicate 14 NoFault @ [Throw ''boom''])))) Secondary))
     = 1"
  by code_simp


section \<open>Properties of the sync item updater\<close>

text \<open>
  C8. For an update whose item hash has deleted = true, the item a successful execute
  returns has deleted = true and content, encItemKey, authHash, itemsKeyId and duplicateOf
  all null, whatever duplicate_of the hash carries, and it is the item handed to the
  repository's save.
\<close>

theorem deleted_hash_clears_item:
  assumes "hash_deleted h = Some True"
    and "updateExistingItem d existingItem h sessionId performingUserId w = (Inr updated, w')"
  shows "item_deleted updated \<and> item_content updated = None \<and> item_encItemKey updated = None
       \<and> item_authHash updated = None \<and> item_itemsKeyId updated = None
       \<and> item_duplicateOf updated = None
       \<and> savedItems w' = savedItems w @ [updated]"
  using assms
  by (auto simp add: updateExistingItem_def updateSharedVaultAssociation_def
      updateKeySystemAssociation_def Let_def
      split: if_splits option.splits prod.splits)

theorem deleted_hash_clears_item_witness:
  "\<exists>updated w'.
     updateExistingItem exampleSyncDeps exampleItem
       (exampleHash\<lparr>hash_duplicate_of := Some ''00000000-0000-0000-0000-000000000001'',
                    hash_deleted := Some True\<rparr>)
       ''00000000-0000-0000-0000-000000000000'' ''00000000-0000-0000-0000-000000000000''
       exampleSyncWorld = (Inr updated, w')
     \<and> item_deleted updated \<and> item_content updated = None \<and> item_encItemKey updated = None
     \<and> item_authHash updated = None \<and> item_itemsKeyId updated = None
     \<and> item_duplicateOf updated = None \<and> savedItems w' = [updated]"
proof -
  let ?h = "exampleHash\<lparr>hash_duplicate_of := Some ''00000000-0000-0000-0000-000000000001'',
                         hash_deleted := Some True\<rparr>"
  have "\<exists>updated w'.
     updateExistingItem exampleSyncDeps exampleItem ?h
       ''00000000-0000-0000-0000-000000000000'' ''00000000-0000-0000-0000-000000000000''
       exampleSyncWorld = (Inr updated, w')"
    by (simp add: updateExistingItem_def updateSharedVaultAssociation_def
        updateKeySystemAssociation_def hashTimestamps_def exampleSyncDeps_def exampleHash_def
        Let_def)
  then obtain updated w' where e:
    "updateExistingItem exampleSyncDeps exampleItem ?h
       ''00000000-0000-0000-0000-000000000000'' ''00000000-0000-0000-0000-000000000000''
       exampleSyncWorld = (Inr updated, w')"
    by blast
  have "hash_deleted ?h = Some True" by simp
  from deleted_hash_clears_item [OF this e] e show ?thesis
    by (auto simp add: exampleSyncWorld_def)
qed

text \<open>
  C9. For an update whose item hash carries a shared_vault_uuid, after a successful
  execute: when the existing item has no shared vault association, or one that names
  another vault, the item has a new association with the hash's vault id (last edited by
  the performing user, with the item's timestamps); when the existing association names
  the same vault the item keeps that very association, its id included.
\<close>

theorem shared_vault_association_identity:
  assumes "hash_shared_vault_uuid h = Some vault"
    and "updateExistingItem d existingItem h sessionId performingUserId w = (Inr updated, w')"
  shows "item_sharedVaultAssociation updated =
          (if (case item_sharedVaultAssociation existingItem of
                 None \<Rightarrow> True
               | Some a \<Rightarrow> sva_sharedVaultId a \<noteq> vault)
           then Some \<lparr>sva_id = nextEntityId w, sva_itemId = item_itemId existingItem,
                      sva_sharedVaultId = vault, sva_lastEditedBy = performingUserId,
                      sva_timestamps = item_timestamps updated\<rparr>
           else item_sharedVaultAssociation existingItem)"
  using assms
  by (auto simp add: updateExistingItem_def updateSharedVaultAssociation_def
      updateKeySystemAssociation_def Let_def
      split: if_splits option.splits prod.splits)

theorem shared_vault_association_identity_witness:
  "\<exists>updated w'.
     updateExistingItem exampleSyncDeps
       (exampleItem\<lparr>item_sharedVaultAssociation :=
          Some \<lparr>sva_id = 3, sva_itemId = ''00000000-0000-0000-0000-000000000000'',
                sva_sharedVaultId = ''00000000-0000-0000-0000-000000000000'',
                sva_lastEditedBy = ''00000000-0000-0000-0000-000000000000'',
                sva_timestamps = (123, 123)\<rparr>\<rparr>)
       (exampleHash\<lparr>hash_shared_vault_uuid := Some ''00000000-0000-0000-0000-000000000000''\<rparr>)
       ''00000000-0000-0000-0000-000000000000'' ''00000000-0000-0000-0000-000000000000''
       exampleSyncWorld = (Inr updated, w')
     \<and> item_sharedVaultAssociation updated =
         Some \<lparr>sva_id = 3, sva_itemId = ''00000000-0000-0000-0000-000000000000'',
               sva_sharedVaultId = ''00000000-0000-0000-0000-000000000000'',
               sva_lastEditedBy = ''00000000-0000-0000-0000-000000000000'',
               sva_timestamps = (123, 123)\<rparr>"
proof -
  let ?h = "exampleHash\<lparr>hash_shared_vault_uuid := Some ''00000000-0000-0000-0000-000000000000''\<rparr>"
  let ?i = "exampleItem\<lparr>item_sharedVaultAssociation :=
          Some \<lparr>sva_id = 3, sva_itemId = ''00000000-0000-0000-0000-000000000000'',
                sva_sharedVaultId = ''00000000-0000-0000-0000-000000000000'',
                sva_lastEditedBy = ''00000000-0000-0000-0000-000000000000'',
                sva_timestamps = (123, 123)\<rparr>\<rparr>"
  have "\<exists>updated w'.
     updateExistingItem exampleSyncDeps ?i ?h
       ''00000000-0000-0000-0000-000000000000'' ''00000000-0000-0000-0000-000000000000''
       exampleSyncWorld = (Inr updated, w')"
    by (simp add: updateExistingItem_def updateSharedVaultAssociation_def
        updateKeySystemAssociation_def hashTimestamps_def exampleSyncDeps_def exampleHash_def
        Let_def)
  then obtain updated w' where e:
    "updateExistingItem exampleSyncDeps ?i ?h
       ''00000000-0000-0000-0000-000000000000'' ''00000000-0000-0000-0000-000000000000''
       exampleSyncWorld = (Inr updated, w')"
    by blast
  have "hash_shared_vault_uuid ?h = Some ''00000000-0000-0000-0000-000000000000''" by simp
  from shared_vault_association_identity [OF this e] e show ?thesis
    by auto
qed


end
